theory Spec2Isabelle
  imports Complex_Main "HOL-Library.Multiset" "HOL-Library.Product_Lexorder"
begin

section \<open>Daily AQI aggregation (\<open>aqi_fetcher_python.py\<close>)\<close>

text \<open>
  The module has two functions with logic of their own: \<open>get_aqi_data\<close>, which turns the
  provider's JSON answer into a list of per-day averages, and \<open>get_aqi_description\<close>, the
  label table. The HTTP call is outside the model: \<open>get_aqi_data\<close> below starts from what
  \<open>requests.get(...)\<close>, \<open>raise_for_status()\<close> and \<open>response.json()\<close> delivered, either a
  \<open>RequestException\<close> or the decoded document. Every \<open>except\<close> clause of the source prints
  and re-raises, so an exception leaves the function unchanged; it is the \<open>Inl\<close> of the
  result.
\<close>

subsection \<open>Exceptions\<close>

datatype error =
    KeyError string
  | ZeroDivisionError
  | OverflowError
  | ValueError
  | OSError
  | RequestException

definition bind_err :: "error + 'a \<Rightarrow> ('a \<Rightarrow> error + 'b) \<Rightarrow> error + 'b" where
  "bind_err m f = (case m of Inl e \<Rightarrow> Inl e | Inr x \<Rightarrow> f x)"

text \<open>A \<open>for\<close> loop whose body may raise: the first failing element ends the loop.\<close>

fun map_err :: "('a \<Rightarrow> error + 'b) \<Rightarrow> 'a list \<Rightarrow> error + 'b list" where
  "map_err f [] = Inr []"
| "map_err f (x # xs) =
     (case f x of
        Inl e \<Rightarrow> Inl e
      | Inr y \<Rightarrow> (case map_err f xs of Inl e \<Rightarrow> Inl e | Inr ys \<Rightarrow> Inr (y # ys)))"

subsection \<open>Python numbers\<close>

text \<open>
  An AQI code is a Python \<open>int\<close> (unbounded): \<open>int\<close>. A concentration is a Python \<open>float\<close>,
  an IEEE 754 binary64 value: a finite one is represented by the rational number it denotes
  (the two zeros are identified), the others are \<open>PInf\<close>, \<open>NInf\<close> and \<open>NaN\<close>.
\<close>

datatype pyfloat = Finite rat | PInf | NInf | NaN

text \<open>Rounding to the nearest integer, ties to the even one: \<open>round(x)\<close> on a float.\<close>

definition round_half_even :: "rat \<Rightarrow> int" where
  "round_half_even x =
     (let f = \<lfloor>x\<rfloor>; d = x - of_int f
      in if d < 1 / 2 then f else if 1 / 2 < d then f + 1 else if even f then f else f + 1)"

text \<open>\<open>flog2 x\<close> is the binary exponent of a positive \<open>x\<close>: \<open>2 ^ e \<le> x < 2 ^ (e + 1)\<close>.\<close>

function flog2 :: "rat \<Rightarrow> int" where
  "flog2 x =
     (if x < 1 then (if 0 < x then flog2 (2 * x) - 1 else 0)
      else if x < 2 then 0 else flog2 (x / 2) + 1)"
  by pat_completeness auto
termination
proof -
  have ceiling_half_less: "\<lceil>1 / (2 * x)\<rceil> < \<lceil>1 / x\<rceil>" if "0 < x" "2 * x < 1" for x :: rat
  proof -
    define y where "y = 1 / x"
    have y2: "2 < y" using that by (simp add: y_def field_simps)
    have e: "1 / (2 * x) = y / 2" by (simp add: y_def)
    have "y / 2 \<le> y - 1" using y2 by simp
    also have "\<dots> \<le> of_int (\<lceil>y\<rceil> - 1)" by simp
    finally have "\<lceil>y / 2\<rceil> \<le> \<lceil>y\<rceil> - 1" by (rule ceiling_le)
    then show ?thesis unfolding e y_def[symmetric] by linarith
  qed
  have floor_double_less: "\<lfloor>2 * x\<rfloor> < \<lceil>1 / x\<rceil>" if "0 < x" "x < 1" for x :: rat
  proof -
    have "\<lfloor>2 * x\<rfloor> < 2" using that by (simp add: floor_less_iff)
    moreover have "1 < 1 / x" using that by simp
    then have "1 < \<lceil>1 / x\<rceil>" by (simp add: less_ceiling_iff)
    ultimately show ?thesis by linarith
  qed
  have floor_half_less: "\<lfloor>x / 2\<rfloor> < \<lfloor>x\<rfloor>" if "\<not> x < 2" for x :: rat
  proof -
    have "x / 2 \<le> x - 1" using that by simp
    then have "\<lfloor>x / 2\<rfloor> \<le> \<lfloor>x - 1\<rfloor>" by (rule floor_mono)
    then show ?thesis by simp
  qed
  show ?thesis
    by (relation "measure (\<lambda>x. if x < 1 then nat \<lceil>1 / x\<rceil> else nat \<lfloor>x\<rfloor>)")
       (simp_all add: ceiling_half_less floor_double_less floor_half_less)
qed

declare flog2.simps [simp del]

text \<open>
  \<open>fl x\<close> is \<open>x\<close> rounded to the nearest binary64 value, ties to even, before the overflow
  test: 53 significant bits, and a fixed quantum \<open>2 ^ -1074\<close> below the least normal
  exponent \<open>-1022\<close>. \<open>binary64\<close> adds the overflow to an infinity, for a rounded value of
  binary exponent 1024 or more, that is, of magnitude \<open>2 ^ 1024\<close> or more.
\<close>

definition fl :: "rat \<Rightarrow> rat" where
  "fl x =
     (if x = 0 then 0
      else let q = 2 powi (max (flog2 \<bar>x\<bar>) (- 1022) - 52)
           in of_int (round_half_even (x / q)) * q)"

definition binary64 :: "rat \<Rightarrow> pyfloat" where
  "binary64 x =
     (let y = fl x
      in if flog2 \<bar>y\<bar> < 1024 then Finite y else if 0 < y then PInf else NInf)"

text \<open>A value a Python float can hold.\<close>

fun is_binary64 :: "pyfloat \<Rightarrow> bool" where
  "is_binary64 (Finite x) = (binary64 x = Finite x)"
| "is_binary64 _ = True"

text \<open>Float addition \<open>a + b\<close>.\<close>

fun fadd :: "pyfloat \<Rightarrow> pyfloat \<Rightarrow> pyfloat" where
  "fadd (Finite a) (Finite b) = binary64 (a + b)"
| "fadd NaN _ = NaN"
| "fadd _ NaN = NaN"
| "fadd PInf NInf = NaN"
| "fadd NInf PInf = NaN"
| "fadd PInf _ = PInf"
| "fadd NInf _ = NInf"
| "fadd _ PInf = PInf"
| "fadd _ NInf = NInf"

text \<open>
  \<open>sum(values)\<close> on a list of floats: the start value is the int \<open>0\<close>, and the items are
  added from left to right, each addition rounded. (CPython 3.12 and later carry a
  compensation term along; the two agree on every list whose partial sums are exact, and
  on every list of one or two items.)
\<close>

definition py_sum :: "pyfloat list \<Rightarrow> pyfloat" where
  "py_sum values = foldl fadd (Finite 0) values"

text \<open>
  \<open>a / b\<close> on two ints is the correctly rounded quotient; CPython raises
  \<open>OverflowError\<close> where it is too large for a float, and \<open>ZeroDivisionError\<close> for \<open>b = 0\<close>.
\<close>

definition py_int_truediv :: "int \<Rightarrow> int \<Rightarrow> error + pyfloat" where
  "py_int_truediv a b =
     (if b = 0 then Inl ZeroDivisionError
      else case binary64 (of_int a / of_int b) of
             Finite y \<Rightarrow> Inr (Finite y)
           | _ \<Rightarrow> Inl OverflowError)"

text \<open>
  \<open>x / n\<close> for a float \<open>x\<close> and the int \<open>n = len(values)\<close>, which is converted to a float
  first (exactly, for the length of a list): \<open>fdiv\<close> is the quotient for \<open>n \<noteq> 0\<close>.
\<close>

fun fdiv :: "pyfloat \<Rightarrow> int \<Rightarrow> pyfloat" where
  "fdiv (Finite a) n = binary64 (a / of_int n)"
| "fdiv PInf n = (if 0 < n then PInf else NInf)"
| "fdiv NInf n = (if 0 < n then NInf else PInf)"
| "fdiv NaN n = NaN"

definition py_float_truediv :: "pyfloat \<Rightarrow> int \<Rightarrow> error + pyfloat" where
  "py_float_truediv x n = (if n = 0 then Inl ZeroDivisionError else Inr (fdiv x n))"

text \<open>\<open>round(x)\<close> with one argument returns an int.\<close>

fun py_round :: "pyfloat \<Rightarrow> error + int" where
  "py_round (Finite x) = Inr (round_half_even x)"
| "py_round NaN = Inl ValueError"
| "py_round _ = Inl OverflowError"

text \<open>
  \<open>round(x, 2)\<close> returns a float: the exact value of \<open>x\<close> is rounded to two decimal places,
  ties to even, and the decimal result is read back as the nearest float. An infinity or a
  NaN is returned as it is.
\<close>

fun py_round2 :: "pyfloat \<Rightarrow> pyfloat" where
  "py_round2 (Finite x) = binary64 (of_int (round_half_even (x * 100)) / 100)"
| "py_round2 x = x"

subsection \<open>Dictionaries\<close>

text \<open>
  A \<open>dict\<close> keeps its keys in insertion order and the loops of \<open>get_aqi_data\<close> iterate over
  \<open>.items()\<close>, so a dictionary is an association list. \<open>getitem d k\<close> is \<open>d[k]\<close> on a plain
  dict. \<open>dd_update dflt k f d\<close> is an in-place change \<open>f\<close> of \<open>d[k]\<close> on a
  \<open>defaultdict\<close> whose factory returns \<open>dflt\<close>: a missing key is first inserted, at the end.
\<close>

definition getitem :: "(string \<times> 'v) list \<Rightarrow> string \<Rightarrow> error + 'v" where
  "getitem d k = (case map_of d k of None \<Rightarrow> Inl (KeyError k) | Some v \<Rightarrow> Inr v)"

fun dd_update :: "'v \<Rightarrow> 'k \<Rightarrow> ('v \<Rightarrow> 'v) \<Rightarrow> ('k \<times> 'v) list \<Rightarrow> ('k \<times> 'v) list" where
  "dd_update dflt k f [] = [(k, f dflt)]"
| "dd_update dflt k f ((k', v) # d) =
     (if k' = k then (k', f v) # d else (k', v) # dd_update dflt k f d)"

subsection \<open>Records of the pipeline\<close>

text \<open>
  A calendar date is (year, month, day). The source carries it as the string
  \<open>dt.strftime('%Y-%m-%d')\<close> and sorts on \<open>datetime.strptime(date, '%Y-%m-%d')\<close>, which
  reads that string back as the same date at midnight; datetimes compare field by field,
  which is the lexicographic order of the triple.
\<close>

type_synonym date = "int \<times> int \<times> int"

text \<open>
  The sort key of line 98 is \<open>datetime.strptime(x['date'], '%Y-%m-%d')\<close> on the string
  that line 51 wrote. \<open>strftime\<close> writes a year below 1000 without leading zeros (CPython
  before 3.13 on Linux), and \<open>%Y\<close> of \<open>strptime\<close> needs exactly four digits: for such a
  date the key is a \<open>ValueError\<close>. \<open>strptime\<close> accepts the calendar dates of the years
  1000 to 9999 and nothing else.
\<close>

definition days_in_month :: "int \<Rightarrow> int \<Rightarrow> int" where
  "days_in_month y m =
     (if m = 2 then (if y mod 4 = 0 \<and> (y mod 100 \<noteq> 0 \<or> y mod 400 = 0) then 29 else 28)
      else if m = 4 \<or> m = 6 \<or> m = 9 \<or> m = 11 then 30 else 31)"

definition strptime_date :: "date \<Rightarrow> error + date" where
  "strptime_date = (\<lambda>(y, m, d).
     if 1000 \<le> y \<and> y \<le> 9999 \<and> 1 \<le> m \<and> m \<le> 12 \<and> 1 \<le> d \<and> d \<le> days_in_month y m
     then Inr (y, m, d) else Inl ValueError)"

record datetime =
  dt_date :: date
  dt_seconds :: int

text \<open>
  One entry of \<open>data['list']\<close>, as the provider documents it: \<open>dt\<close> is an integer,
  \<open>main\<close> an object of integers and \<open>components\<close> an object of numbers; any of the keys
  may be missing. A concentration that the JSON text writes as an integer is a Python
  \<open>int\<close>; \<open>sum\<close> and \<open>/\<close> give the same float for it as for the float of the same value
  (below \<open>2 ^ 53\<close>), and it is read as that float here.
\<close>

record raw_item =
  item_dt :: "int option"
  item_main :: "(string \<times> int) list option"
  item_components :: "(string \<times> pyfloat) list option"

record api_data =
  data_list :: "raw_item list option"

text \<open>One entry of \<open>processed_data\<close>.\<close>

record reading =
  r_date :: date
  r_datetime :: datetime
  r_aqi :: int
  r_pollutants :: "(string \<times> pyfloat) list"

text \<open>One value of \<open>daily_data\<close>.\<close>

record bucket =
  b_aqi_values :: "int list"
  b_pollutants :: "(string \<times> pyfloat list) list"

text \<open>One entry of \<open>final_data\<close>.\<close>

record summary =
  s_date :: date
  s_aqi :: int
  s_aqi_description :: string
  s_pollutants :: "(string \<times> pyfloat) list"

subsection \<open>\<open>get_aqi_description\<close>\<close>

definition get_aqi_description :: "int \<Rightarrow> string" where
  "get_aqi_description aqi =
     (case map_of [(1, ''Good''), (2, ''Fair''), (3, ''Moderate''), (4, ''Poor''),
                   (5, ''Very Poor'')] aqi of
        Some d \<Rightarrow> d
      | None \<Rightarrow> ''Unknown'')"

subsection \<open>\<open>get_aqi_data\<close>: building \<open>processed_data\<close>\<close>

definition field :: "string \<Rightarrow> 'v option \<Rightarrow> error + 'v" where
  "field k v = (case v of None \<Rightarrow> Inl (KeyError k) | Some x \<Rightarrow> Inr x)"

definition pollutant_names :: "string list" where
  "pollutant_names = [''co'', ''no'', ''no2'', ''o3'', ''so2'', ''pm2_5'', ''pm10'', ''nh3'']"

text \<open>\<open>item['components'][k]\<close>.\<close>

definition component :: "raw_item \<Rightarrow> string \<Rightarrow> error + pyfloat" where
  "component item k = bind_err (field ''components'' (item_components item)) (\<lambda>c. getitem c k)"

text \<open>
  The body of the first loop. \<open>datetime.fromtimestamp\<close> converts in the local time zone of
  the process, so it is a parameter; it may raise (a timestamp outside the years 1 to
  9999). The dictionary display evaluates its values in the order written.
\<close>

definition process_item :: "(int \<Rightarrow> error + datetime) \<Rightarrow> raw_item \<Rightarrow> error + reading" where
  "process_item fromtimestamp item =
     bind_err (field ''dt'' (item_dt item)) (\<lambda>t.
     bind_err (fromtimestamp t) (\<lambda>dt.
     bind_err (bind_err (field ''main'' (item_main item)) (\<lambda>m. getitem m ''aqi'')) (\<lambda>aqi.
     bind_err (map_err (component item) pollutant_names) (\<lambda>vs.
       Inr \<lparr>r_date = dt_date dt, r_datetime = dt, r_aqi = aqi,
            r_pollutants = zip pollutant_names vs\<rparr>))))"

subsection \<open>\<open>get_aqi_data\<close>: grouping by date\<close>

definition empty_bucket :: bucket where
  "empty_bucket = \<lparr>b_aqi_values = [], b_pollutants = []\<rparr>"

text \<open>The body of the second loop, for one item of \<open>processed_data\<close>.\<close>

definition add_reading :: "(date \<times> bucket) list \<Rightarrow> reading \<Rightarrow> (date \<times> bucket) list" where
  "add_reading daily_data item =
     foldl (\<lambda>dd (pollutant, v).
              dd_update empty_bucket (r_date item)
                (\<lambda>b. b\<lparr>b_pollutants :=
                          dd_update [] pollutant (\<lambda>vs. vs @ [v]) (b_pollutants b)\<rparr>) dd)
       (dd_update empty_bucket (r_date item)
          (\<lambda>b. b\<lparr>b_aqi_values := b_aqi_values b @ [r_aqi item]\<rparr>) daily_data)
       (r_pollutants item)"

definition group_by_date :: "reading list \<Rightarrow> (date \<times> bucket) list" where
  "group_by_date processed_data = foldl add_reading [] processed_data"

subsection \<open>\<open>get_aqi_data\<close>: averaging, labelling and sorting\<close>

definition avg_pollutant :: "string \<times> pyfloat list \<Rightarrow> error + string \<times> pyfloat" where
  "avg_pollutant = (\<lambda>(pollutant, vs).
     bind_err (py_float_truediv (py_sum vs) (int (length vs))) (\<lambda>m.
       Inr (pollutant, py_round2 m)))"

text \<open>The body of the third loop, for one item of \<open>daily_data\<close>.\<close>

definition day_summary :: "date \<times> bucket \<Rightarrow> error + summary" where
  "day_summary = (\<lambda>(date, data_dict).
     bind_err (py_int_truediv (sum_list (b_aqi_values data_dict))
                 (int (length (b_aqi_values data_dict)))) (\<lambda>m.
     bind_err (py_round m) (\<lambda>avg_aqi.
     bind_err (map_err avg_pollutant (b_pollutants data_dict)) (\<lambda>avg_pollutants.
       Inr \<lparr>s_date = date, s_aqi = avg_aqi,
            s_aqi_description = get_aqi_description avg_aqi,
            s_pollutants = avg_pollutants\<rparr>))))"

text \<open>
  Line 98. \<open>list.sort(key=...)\<close> computes the key of every element first, in list
  order, so the first key that fails ends the sort; then it sorts the elements on their
  keys. The sort is stable, as \<open>sort_key\<close> is.
\<close>

definition sort_by_date :: "summary list \<Rightarrow> error + summary list" where
  "sort_by_date final_data =
     bind_err (map_err (\<lambda>x. strptime_date (s_date x)) final_data) (\<lambda>keys.
       Inr (map snd (sort_key fst (zip keys final_data))))"

text \<open>Lines 80 to 100: the third loop over \<open>daily_data.items()\<close> and the sort.\<close>

definition summarize_days :: "(date \<times> bucket) list \<Rightarrow> error + summary list" where
  "summarize_days daily_items = bind_err (map_err day_summary daily_items) sort_by_date"

text \<open>Lines 66 to 100: from \<open>processed_data\<close> to the sorted \<open>final_data\<close>.\<close>

definition aggregate :: "reading list \<Rightarrow> error + summary list" where
  "aggregate processed_data = summarize_days (group_by_date processed_data)"

definition get_aqi_data ::
  "(int \<Rightarrow> error + datetime) \<Rightarrow> error + api_data \<Rightarrow> error + summary list" where
  "get_aqi_data fromtimestamp response =
     bind_err response (\<lambda>data.
     bind_err (field ''list'' (data_list data)) (\<lambda>items.
     bind_err (map_err (process_item fromtimestamp) items) (\<lambda>processed_data.
       aggregate processed_data)))"

subsection \<open>What the grouping builds, stated on lists\<close>

text \<open>
  These functions are not in the source: they say what \<open>daily_data\<close> holds after the second
  loop, and the lemmas below prove that the dictionary updates of \<open>add_reading\<close> build
  exactly that. \<open>add_samples\<close> is the inner loop over \<open>item['pollutants'].items()\<close>,
  \<open>bucket_add\<close> is what one item does to the bucket of its date, \<open>day_bucket\<close> is the
  bucket of a day from the readings of that day, and \<open>first_seen\<close> lists the distinct
  elements of a list in the order of their first occurrence.
\<close>

definition add_samples ::
  "(string \<times> pyfloat list) list \<Rightarrow> (string \<times> pyfloat) list \<Rightarrow>
   (string \<times> pyfloat list) list" where
  "add_samples = foldl (\<lambda>d (p, v). dd_update [] p (\<lambda>vs. vs @ [v]) d)"

definition bucket_add :: "bucket \<Rightarrow> reading \<Rightarrow> bucket" where
  "bucket_add b r = b\<lparr>b_aqi_values := b_aqi_values b @ [r_aqi r],
                      b_pollutants := add_samples (b_pollutants b) (r_pollutants r)\<rparr>"

definition day_bucket :: "reading list \<Rightarrow> bucket" where
  "day_bucket day = foldl bucket_add empty_bucket day"

definition first_seen :: "'a list \<Rightarrow> 'a list" where
  "first_seen xs = rev (remdups (rev xs))"

text \<open>\<open>round(sum(values) / len(values), 2)\<close> for a non-empty list.\<close>

definition mean2 :: "pyfloat list \<Rightarrow> pyfloat" where
  "mean2 vs = py_round2 (fdiv (py_sum vs) (int (length vs)))"

text \<open>
  The key whose lookup fails first in the body of the first loop, in the order the body
  reads them: \<open>item['dt']\<close>, \<open>item['main']\<close>, \<open>['aqi']\<close>, \<open>item['components']\<close>
  and the eight channels in the order of the dictionary display.
\<close>

definition first_missing :: "raw_item \<Rightarrow> string option" where
  "first_missing item =
     (if item_dt item = None then Some ''dt''
      else case item_main item of
        None \<Rightarrow> Some ''main''
      | Some m \<Rightarrow>
          if map_of m ''aqi'' = None then Some ''aqi''
          else case item_components item of
            None \<Rightarrow> Some ''components''
          | Some c \<Rightarrow> find (\<lambda>k. map_of c k = None) pollutant_names)"

subsection \<open>Sample data\<close>

text \<open>
  Four readings on three days, newest first, two of them on the same day, and the
  summaries the aggregation computes from them; then the readings of one day with the
  \<open>pm2_5\<close> values 10.0 and 20.0, and four readings of one day with the AQI codes
  2, 3, 3, 4.
\<close>

definition example_reading :: "date \<Rightarrow> int \<Rightarrow> rat \<Rightarrow> reading" where
  "example_reading d a pm =
     \<lparr>r_date = d, r_datetime = \<lparr>dt_date = d, dt_seconds = 0\<rparr>, r_aqi = a,
      r_pollutants = [(''pm2_5'', Finite pm), (''pm10'', Finite 30)]\<rparr>"

definition example_readings :: "reading list" where
  "example_readings =
     [example_reading (2024, 1, 3) 4 12, example_reading (2024, 1, 2) 3 10,
      example_reading (2024, 1, 2) 2 20, example_reading (2024, 1, 1) 1 7]"

definition example_summaries :: "summary list" where
  "example_summaries =
     [\<lparr>s_date = (2024, 1, 1), s_aqi = 1, s_aqi_description = ''Good'',
       s_pollutants = [(''pm2_5'', Finite 7), (''pm10'', Finite 30)]\<rparr>,
      \<lparr>s_date = (2024, 1, 2), s_aqi = 2, s_aqi_description = ''Fair'',
       s_pollutants = [(''pm2_5'', Finite 15), (''pm10'', Finite 30)]\<rparr>,
      \<lparr>s_date = (2024, 1, 3), s_aqi = 4, s_aqi_description = ''Poor'',
       s_pollutants = [(''pm2_5'', Finite 12), (''pm10'', Finite 30)]\<rparr>]"

definition one_day :: "reading list" where
  "one_day =
     [example_reading (2024, 1, 2) 2 10, example_reading (2024, 1, 2) 3 20]"

definition four_readings :: "reading list" where
  "four_readings =
     [example_reading (2024, 1, 2) 2 5, example_reading (2024, 1, 2) 3 6,
      example_reading (2024, 1, 2) 3 7, example_reading (2024, 1, 2) 4 8]"

text \<open>
  An instance of \<open>datetime.fromtimestamp\<close>: CPython 3.11 on Linux (64-bit \<open>time_t\<close>) in
  a process whose local time zone is UTC. The days since 1970-01-01 are converted to a
  date of the proleptic Gregorian calendar. A timestamp outside \<open>time_t\<close> is an
  \<open>OverflowError\<close>, one whose year does not fit the C \<open>struct tm\<close> an \<open>OSError\<close>, and any
  other before 0001-01-02 or after 9999-12-31 a \<open>ValueError\<close>. Then a raw item as the
  provider sends it, with all eight channels, and the same item without \<open>so2\<close>, one hour
  later; an item without \<open>main\<close> whose timestamp is the first second of the year 10000;
  the sample item with the AQI code \<open>2 ^ 53 + 1\<close>; and the sample item on 0999-12-31.
\<close>

definition civil_from_days :: "int \<Rightarrow> date" where
  "civil_from_days n =
     (let z = n + 719468;
          era = z div 146097;
          doe = z mod 146097;
          yoe = (doe - doe div 1460 + doe div 36524 - doe div 146096) div 365;
          doy = doe - (365 * yoe + yoe div 4 - yoe div 100);
          mp = (5 * doy + 2) div 153;
          d = doy - (153 * mp + 2) div 5 + 1;
          m = (if mp < 10 then mp + 3 else mp - 9)
      in (yoe + era * 400 + (if m \<le> 2 then 1 else 0), m, d))"

definition utc_fromtimestamp :: "int \<Rightarrow> error + datetime" where
  "utc_fromtimestamp t =
     (if t < - 9223372036854775808 \<or> 9223372036854775807 < t then Inl OverflowError
      else if t < - 67768040609740800 \<or> 67768036191676799 < t then Inl OSError
      else if t < - 62135510400 \<or> 253402300799 < t then Inl ValueError
      else Inr \<lparr>dt_date = civil_from_days (t div 86400), dt_seconds = t mod 86400\<rparr>)"

definition example_components :: "(string \<times> pyfloat) list" where
  "example_components =
     [(''co'', Finite (807 / 4)), (''no'', Finite (1 / 8)), (''no2'', Finite (3 / 4)),
      (''o3'', Finite (549 / 8)), (''so2'', Finite (5 / 8)), (''pm2_5'', Finite (1 / 2)),
      (''pm10'', Finite (9 / 16)), (''nh3'', Finite (1 / 8))]"

definition example_item :: raw_item where
  "example_item =
     \<lparr>item_dt = Some 1704153600, item_main = Some [(''aqi'', 2)],
      item_components = Some example_components\<rparr>"

definition example_item_no_so2 :: raw_item where
  "example_item_no_so2 =
     \<lparr>item_dt = Some 1704157200, item_main = Some [(''aqi'', 3)],
      item_components = Some (filter (\<lambda>kv. fst kv \<noteq> ''so2'') example_components)\<rparr>"

definition example_item_no_main :: raw_item where
  "example_item_no_main =
     \<lparr>item_dt = Some 253402300800, item_main = None,
      item_components = Some example_components\<rparr>"

definition example_item_big_aqi :: raw_item where
  "example_item_big_aqi =
     \<lparr>item_dt = Some 1704153600, item_main = Some [(''aqi'', 9007199254740993)],
      item_components = Some example_components\<rparr>"

definition example_item_year_999 :: raw_item where
  "example_item_year_999 =
     \<lparr>item_dt = Some (- 30610310400), item_main = Some [(''aqi'', 2)],
      item_components = Some example_components\<rparr>"

section \<open>Lemmas\<close>

subsection \<open>Rounding\<close>

lemma flog2_bounds: "0 < x \<Longrightarrow> 2 powi (flog2 x) \<le> x \<and> x < 2 powi (flog2 x + 1)"
proof (induction x rule: flog2.induct)
  case (1 x)
  show ?case
  proof (cases "x < 1")
    case True
    with 1 have ih: "2 powi (flog2 (2 * x)) \<le> 2 * x \<and> 2 * x < 2 powi (flog2 (2 * x) + 1)" by simp
    have e: "flog2 x = flog2 (2 * x) - 1" using True 1 by (subst flog2.simps) simp
    show ?thesis using ih unfolding e by (simp add: power_int_diff power_int_add)
  next
    case False
    show ?thesis
    proof (cases "x < 2")
      case True
      have e: "flog2 x = 0" using True False by (subst flog2.simps) simp
      show ?thesis using True False unfolding e by simp
    next
      case ge2: False
      with 1 False have ih: "2 powi (flog2 (x / 2)) \<le> x / 2 \<and> x / 2 < 2 powi (flog2 (x / 2) + 1)" by simp
      have e: "flog2 x = flog2 (x / 2) + 1" using ge2 False by (subst flog2.simps) simp
      show ?thesis using ih unfolding e by (simp add: power_int_diff power_int_add)
    qed
  qed
qed

lemma two_powi_less_imp:
  assumes "(2::rat) powi m < 2 powi n" shows "m < n"
proof (rule ccontr)
  assume "\<not> m < n"
  then have "n \<le> m" by simp
  then have "(2::rat) powi n \<le> 2 powi m" by (rule power_int_increasing) simp
  then show False using assms by simp
qed

lemma two_powi_neg: "(2::rat) powi (- int n) = 1 / 2 ^ n"
  by (simp add: power_int_minus field_simps)

lemma flog2_less:
  assumes "0 < x" "x < 2 powi b" shows "flog2 x < b"
proof -
  have "(2::rat) powi (flog2 x) < 2 powi b" using flog2_bounds[OF assms(1)] assms(2) by linarith
  then show ?thesis by (rule two_powi_less_imp)
qed

lemma flog2_ge:
  assumes "0 < x" "2 powi a \<le> x" shows "a \<le> flog2 x"
proof -
  have "(2::rat) powi a < 2 powi (flog2 x + 1)" using flog2_bounds[OF assms(1)] assms(2) by linarith
  then have "a < flog2 x + 1" by (rule two_powi_less_imp)
  then show ?thesis by simp
qed

lemma round_half_even_of_int [simp]: "round_half_even (of_int k) = k"
  by (simp add: round_half_even_def)

lemma round_half_even_cases: "round_half_even x = \<lfloor>x\<rfloor> \<or> (round_half_even x = \<lfloor>x\<rfloor> + 1 \<and> of_int \<lfloor>x\<rfloor> < x)"
  by (auto simp: round_half_even_def Let_def)

lemma round_half_even_ge: "of_int a \<le> x \<Longrightarrow> a \<le> round_half_even x"
proof -
  assume "of_int a \<le> x"
  then have "a \<le> \<lfloor>x\<rfloor>" by (simp add: le_floor_iff)
  then show ?thesis using round_half_even_cases[of x] by auto
qed

lemma round_half_even_le: assumes "x \<le> of_int b" shows "round_half_even x \<le> b"
proof -
  have f: "\<lfloor>x\<rfloor> \<le> b" using assms by (simp add: floor_le_iff)
  show ?thesis
    using round_half_even_cases[of x]
  proof
    assume "round_half_even x = \<lfloor>x\<rfloor>" then show ?thesis using f by simp
  next
    assume a: "round_half_even x = \<lfloor>x\<rfloor> + 1 \<and> of_int \<lfloor>x\<rfloor> < x"
    then have "of_int \<lfloor>x\<rfloor> < (of_int b :: rat)" using assms by linarith
    then have "\<lfloor>x\<rfloor> < b" by simp
    then show ?thesis using a by simp
  qed
qed

text \<open>Between 1 and 2^53 the quantum of fl is 1 / 2^n for an n.\<close>

lemma fl_quantum:
  assumes "1 \<le> x" "x < 2 ^ 53"
  shows "\<exists>n. fl x = of_int (round_half_even (x * 2 ^ n)) / 2 ^ n"
proof -
  have pos: "0 < x" using assms by simp
  have "(2::rat) powi 0 \<le> x" using assms by simp
  then have e0: "0 \<le> flog2 x" using pos by (intro flog2_ge)
  have "x < 2 powi 53" using assms by simp
  then have e1: "flog2 x < 53" using pos by (intro flog2_less)
  define n where "n = nat (52 - flog2 x)"
  have q: "(2::rat) powi (flog2 x - 52) = 1 / 2 ^ n"
  proof -
    have "flog2 x - 52 = - int n" using e1 by (simp add: n_def)
    then show ?thesis by (simp only: two_powi_neg)
  qed
  have "fl x = of_int (round_half_even (x * 2 ^ n)) / 2 ^ n"
    using pos e0 by (simp add: fl_def Let_def max_def q)
  then show ?thesis ..
qed

lemma fl_ge_int:
  assumes "1 \<le> x" "x < 2 ^ 53" "of_int a \<le> x"
  shows "of_int a \<le> fl x"
proof -
  obtain n where n: "fl x = of_int (round_half_even (x * 2 ^ n)) / 2 ^ n"
    using fl_quantum[OF assms(1,2)] ..
  have "of_int (a * 2 ^ n) \<le> x * 2 ^ n" using assms(3) by simp
  then have "a * 2 ^ n \<le> round_half_even (x * 2 ^ n)" by (rule round_half_even_ge)
  then have "(of_int (a * 2 ^ n) :: rat) \<le> of_int (round_half_even (x * 2 ^ n))"
    by (simp only: of_int_le_iff)
  then show ?thesis unfolding n by (simp add: field_simps)
qed

lemma fl_le_int:
  assumes "1 \<le> x" "x < 2 ^ 53" "x \<le> of_int b"
  shows "fl x \<le> of_int b"
proof -
  obtain n where n: "fl x = of_int (round_half_even (x * 2 ^ n)) / 2 ^ n"
    using fl_quantum[OF assms(1,2)] ..
  have "x * 2 ^ n \<le> of_int (b * 2 ^ n)" using assms(3) by simp
  then have "round_half_even (x * 2 ^ n) \<le> b * 2 ^ n" by (rule round_half_even_le)
  then have "(of_int (round_half_even (x * 2 ^ n)) :: rat) \<le> of_int (b * 2 ^ n)"
    by (simp only: of_int_le_iff)
  then show ?thesis unfolding n by (simp add: field_simps)
qed

lemma binary64_small:
  assumes "\<bar>fl x\<bar> < 2 ^ 1024" shows "binary64 x = Finite (fl x)"
proof (cases "fl x = 0")
  case True
  then show ?thesis by (simp add: binary64_def flog2.simps)
next
  case False
  then have "0 < \<bar>fl x\<bar>" by simp
  moreover have "\<bar>fl x\<bar> < 2 powi 1024" using assms by simp
  ultimately have "flog2 \<bar>fl x\<bar> < 1024" by (rule flog2_less)
  then show ?thesis by (simp add: binary64_def Let_def)
qed

lemma binary64_between:
  assumes "1 \<le> x" "x < 2 ^ 53" "of_int a \<le> x" "x \<le> of_int b"
  shows "\<exists>y. binary64 x = Finite y \<and> of_int a \<le> y \<and> y \<le> of_int b"
proof -
  have lo: "1 \<le> fl x" using fl_ge_int[OF assms(1,2), of 1] assms(1) by simp
  have "x \<le> of_int (2 ^ 53)" using assms(2) by simp
  then have hi: "fl x \<le> of_int (2 ^ 53)" by (rule fl_le_int[OF assms(1,2)])
  have "\<bar>fl x\<bar> \<le> 2 ^ 53" using lo hi by simp
  also have "\<dots> < (2::rat) ^ 1024" by simp
  finally have "binary64 x = Finite (fl x)" by (rule binary64_small)
  then show ?thesis using fl_ge_int[OF assms(1,2,3)] fl_le_int[OF assms(1,2,4)] by simp
qed

lemma fl_of_int:
  assumes "\<bar>a\<bar> < 2 ^ 53" shows "fl (of_int a) = of_int a"
proof (cases "a = 0")
  case True then show ?thesis by (simp add: fl_def)
next
  case False
  define x :: rat where "x = \<bar>of_int a\<bar>"
  have x1: "1 \<le> x" using False by (simp add: x_def)
  have pos: "0 < x" using x1 by simp
  have "(2::rat) powi 0 \<le> x" using x1 by simp
  then have e0: "0 \<le> flog2 x" using pos by (intro flog2_ge)
  have "x < of_int (2 ^ 53)" unfolding x_def using assms by (simp only: of_int_abs[symmetric] of_int_less_iff)
  then have "x < 2 powi 53" by simp
  then have e1: "flog2 x < 53" using pos by (intro flog2_less)
  define n where "n = nat (52 - flog2 x)"
  have q: "(2::rat) powi (flog2 x - 52) = 1 / 2 ^ n"
  proof -
    have "flog2 x - 52 = - int n" using e1 by (simp add: n_def)
    then show ?thesis by (simp only: two_powi_neg)
  qed
  have "of_int a * (2::rat) ^ n = of_int (a * 2 ^ n)" by simp
  then have r: "round_half_even (of_int a * 2 ^ n) = a * 2 ^ n"
    by (simp only: round_half_even_of_int)
  show ?thesis using False e0 by (simp add: fl_def Let_def max_def q x_def[symmetric] r)
qed

lemma binary64_of_int:
  assumes "\<bar>a\<bar> < 2 ^ 53" shows "binary64 (of_int a) = Finite (of_int a)"
proof -
  have "\<bar>of_int a :: rat\<bar> < of_int (2 ^ 53)" using assms by (simp only: of_int_abs[symmetric] of_int_less_iff)
  also have "\<dots> < (2::rat) ^ 1024" by simp
  finally show ?thesis by (simp add: binary64_small fl_of_int[OF assms])
qed

subsection \<open>Loops that may raise\<close>

lemma map_err_Inr: "map_err f xs = Inr ys \<Longrightarrow> list_all2 (\<lambda>x y. f x = Inr y) xs ys"
  by (induction xs arbitrary: ys) (auto split: sum.splits)

lemma map_err_Inl: "map_err f xs = Inl e \<Longrightarrow> \<exists>x\<in>set xs. f x = Inl e"
  by (induction xs) (auto split: sum.splits)

lemma map_err_ok: "(\<And>x. x \<in> set xs \<Longrightarrow> f x = Inr (g x)) \<Longrightarrow> map_err f xs = Inr (map g xs)"
  by (induction xs) auto

lemma map_err_first_failure:
  "(\<And>x. x \<in> set pre \<Longrightarrow> \<exists>y. f x = Inr y) \<Longrightarrow> f x = Inl e \<Longrightarrow> map_err f (pre @ x # post) = Inl e"
proof (induction pre)
  case Nil
  then show ?case by simp
next
  case (Cons p pre)
  obtain y where "f p = Inr y" using Cons.prems(1)[of p] by auto
  moreover have "map_err f (pre @ x # post) = Inl e" using Cons by simp
  ultimately show ?case by simp
qed

subsection \<open>Dictionary updates and the grouping\<close>

lemma dd_update_twice:
  "dd_update dflt k g (dd_update dflt k f d) = dd_update dflt k (\<lambda>v. g (f v)) d"
  by (induction d) auto

lemma foldl_dd_update:
  "foldl (\<lambda>dd x. dd_update dflt k (h x) dd) (dd_update dflt k f d) xs =
   dd_update dflt k (\<lambda>b. foldl (\<lambda>b x. h x b) (f b) xs) d"
proof (induction xs arbitrary: f)
  case Nil
  show ?case by simp
next
  case (Cons x xs)
  show ?case by (simp add: dd_update_twice Cons.IH)
qed

lemma add_reading_eq:
  "add_reading dd r = dd_update empty_bucket (r_date r) (\<lambda>b. bucket_add b r) dd"
proof -
  let ?h = "\<lambda>(p, v) b. b\<lparr>b_pollutants := dd_update [] p (\<lambda>vs. vs @ [v]) (b_pollutants b)\<rparr>"
  have step: "foldl (\<lambda>b x. ?h x b) b kvs =
      b\<lparr>b_pollutants := add_samples (b_pollutants b) kvs\<rparr>" for b :: bucket and kvs
    by (induction kvs arbitrary: b) (auto simp: add_samples_def)
  have "add_reading dd r =
      foldl (\<lambda>dd x. dd_update empty_bucket (r_date r) (?h x) dd)
        (dd_update empty_bucket (r_date r)
           (\<lambda>b. b\<lparr>b_aqi_values := b_aqi_values b @ [r_aqi r]\<rparr>) dd) (r_pollutants r)"
    unfolding add_reading_def by (rule arg_cong[where f="\<lambda>g. foldl g _ _"]) (auto simp: fun_eq_iff)
  also have "\<dots> = dd_update empty_bucket (r_date r)
      (\<lambda>b. foldl (\<lambda>b x. ?h x b) (b\<lparr>b_aqi_values := b_aqi_values b @ [r_aqi r]\<rparr>) (r_pollutants r)) dd"
    by (rule foldl_dd_update)
  also have "\<dots> = dd_update empty_bucket (r_date r) (\<lambda>b. bucket_add b r) dd"
    by (simp add: step bucket_add_def)
  finally show ?thesis .
qed

lemma dd_update_map_in:
  "k \<in> set ks \<Longrightarrow> distinct ks \<Longrightarrow>
   dd_update dflt k f (map (\<lambda>d. (d, B d)) ks) = map (\<lambda>d. (d, if d = k then f (B d) else B d)) ks"
  by (induction ks) auto

lemma dd_update_map_notin:
  "k \<notin> set ks \<Longrightarrow>
   dd_update dflt k f (map (\<lambda>d. (d, B d)) ks) = map (\<lambda>d. (d, B d)) ks @ [(k, f dflt)]"
  by (induction ks) auto

lemma first_seen_snoc:
  "first_seen (xs @ [x]) = (if x \<in> set xs then first_seen xs else first_seen xs @ [x])"
  by (simp add: first_seen_def)

lemma set_first_seen [simp]: "set (first_seen xs) = set xs"
  by (simp add: first_seen_def)

lemma distinct_first_seen [simp]: "distinct (first_seen xs)"
  by (simp add: first_seen_def)

lemma day_bucket_snoc: "day_bucket (day @ [r]) = bucket_add (day_bucket day) r"
  by (simp add: day_bucket_def)

lemma day_bucket_single: "day_bucket [r] = bucket_add empty_bucket r"
  by (simp add: day_bucket_def)

lemma day_bucket_Nil: "day_bucket [] = empty_bucket"
  by (simp add: day_bucket_def)

lemma add_samples_append: "add_samples d (xs @ ys) = add_samples (add_samples d xs) ys"
  by (simp add: add_samples_def)

lemma foldl_dd_update_group:
  "foldl (\<lambda>d x. dd_update dflt (key x) (\<lambda>v. step v x) d) [] xs =
   map (\<lambda>k. (k, foldl step dflt (filter (\<lambda>x. key x = k) xs))) (first_seen (map key xs))"
proof (induction xs rule: rev_induct)
  case Nil
  show ?case by (simp add: first_seen_def)
next
  case (snoc x xs)
  let ?B = "\<lambda>xs k. foldl step dflt (filter (\<lambda>x. key x = k) xs)"
  let ?ks = "first_seen (map key xs)"
  have g: "foldl (\<lambda>d x. dd_update dflt (key x) (\<lambda>v. step v x) d) [] (xs @ [x]) =
      dd_update dflt (key x) (\<lambda>v. step v x) (map (\<lambda>k. (k, ?B xs k)) ?ks)"
    by (simp add: snoc.IH)
  show ?case
  proof (cases "key x \<in> set (map key xs)")
    case True
    then have "key x \<in> set ?ks" by simp
    then have "dd_update dflt (key x) (\<lambda>v. step v x) (map (\<lambda>k. (k, ?B xs k)) ?ks) =
        map (\<lambda>k. (k, if k = key x then step (?B xs k) x else ?B xs k)) ?ks"
      by (rule dd_update_map_in) simp
    also have "\<dots> = map (\<lambda>k. (k, ?B (xs @ [x]) k)) ?ks"
      by auto
    finally show ?thesis unfolding g using True by (simp add: first_seen_snoc)
  next
    case False
    then have nin: "key x \<notin> set ?ks" by simp
    have "\<forall>y\<in>set xs. key y \<noteq> key x"
      using False by (metis imageI list.set_map)
    then have e: "filter (\<lambda>y. key y = key x) xs = []"
      by (simp add: filter_empty_conv)
    have eq1: "dd_update dflt (key x) (\<lambda>v. step v x) (map (\<lambda>k. (k, ?B xs k)) ?ks) =
        map (\<lambda>k. (k, ?B xs k)) ?ks @ [(key x, step dflt x)]"
      using nin by (rule dd_update_map_notin)
    have eq2: "map (\<lambda>k. (k, ?B xs k)) ?ks = map (\<lambda>k. (k, ?B (xs @ [x]) k)) ?ks"
      using nin by auto
    have eq3: "?B (xs @ [x]) (key x) = step dflt x"
      by (simp add: e)
    have fs: "first_seen (map key (xs @ [x])) = ?ks @ [key x]"
      using False by (simp add: first_seen_snoc)
    have "foldl (\<lambda>d x. dd_update dflt (key x) (\<lambda>v. step v x) d) [] (xs @ [x]) =
        map (\<lambda>k. (k, ?B xs k)) ?ks @ [(key x, step dflt x)]"
      using g eq1 by (rule trans)
    also have "\<dots> = map (\<lambda>k. (k, ?B (xs @ [x]) k)) ?ks @ [(key x, ?B (xs @ [x]) (key x))]"
      by (simp only: eq2 eq3)
    also have "\<dots> = map (\<lambda>k. (k, ?B (xs @ [x]) k)) (?ks @ [key x])"
      by simp
    finally show ?thesis by (simp only: fs)
  qed
qed

lemma group_by_date_eq:
  "group_by_date rs =
   map (\<lambda>d. (d, day_bucket (filter (\<lambda>r. r_date r = d) rs))) (first_seen (map r_date rs))"
proof -
  have "group_by_date rs =
      foldl (\<lambda>d x. dd_update empty_bucket (r_date x) (\<lambda>v. bucket_add v x) d) [] rs"
    unfolding group_by_date_def
    by (rule arg_cong[where f="\<lambda>g. foldl g _ _"]) (simp add: fun_eq_iff add_reading_eq)
  also have "\<dots> = map (\<lambda>k. (k, foldl bucket_add empty_bucket (filter (\<lambda>x. r_date x = k) rs)))
      (first_seen (map r_date rs))"
    by (rule foldl_dd_update_group)
  finally show ?thesis by (simp add: day_bucket_def)
qed

lemma add_samples_eq:
  "add_samples [] kvs =
   map (\<lambda>p. (p, map snd (filter (\<lambda>kv. fst kv = p) kvs))) (first_seen (map fst kvs))"
proof -
  have s: "foldl (\<lambda>vs x. vs @ [snd x]) acc ys = acc @ map snd ys" for acc :: "'b list" and ys :: "('a \<times> 'b) list"
    by (induction ys arbitrary: acc) auto
  have "add_samples [] kvs = foldl (\<lambda>d x. dd_update [] (fst x) (\<lambda>vs. vs @ [snd x]) d) [] kvs"
    unfolding add_samples_def by (rule arg_cong[where f="\<lambda>g. foldl g _ _"]) (auto simp: fun_eq_iff)
  also have "\<dots> = map (\<lambda>k. (k, foldl (\<lambda>vs x. vs @ [snd x]) [] (filter (\<lambda>x. fst x = k) kvs)))
      (first_seen (map fst kvs))"
    by (rule foldl_dd_update_group)
  finally show ?thesis by (simp add: s)
qed

lemma day_bucket_aqi: "b_aqi_values (day_bucket day) = map r_aqi day"
  by (induction day rule: rev_induct)
     (simp_all add: day_bucket_Nil empty_bucket_def day_bucket_snoc bucket_add_def)

lemma day_bucket_pollutants:
  "b_pollutants (day_bucket day) = add_samples [] (concat (map r_pollutants day))"
  by (induction day rule: rev_induct)
     (simp_all add: day_bucket_Nil empty_bucket_def day_bucket_snoc bucket_add_def add_samples_append,
      simp add: add_samples_def)

lemma add_samples_nonempty:
  "(p, vs) \<in> set (add_samples [] kvs) \<Longrightarrow> vs \<noteq> []"
proof -
  assume "(p, vs) \<in> set (add_samples [] kvs)"
  then have p: "p \<in> fst ` set kvs" and vs: "vs = map snd (filter (\<lambda>kv. fst kv = p) kvs)"
    by (auto simp: add_samples_eq)
  from p obtain kv where "kv \<in> set kvs" "fst kv = p" by auto
  then have "filter (\<lambda>kv. fst kv = p) kvs \<noteq> []" by (auto simp: filter_empty_conv)
  then show ?thesis using vs by simp
qed

lemma map_of_add_samples:
  "map_of (add_samples [] kvs) p =
   (if p \<in> fst ` set kvs then Some (map snd (filter (\<lambda>kv. fst kv = p) kvs)) else None)"
proof -
  have m: "map_of (map (\<lambda>k. (k, F k)) ks) q = (if q \<in> set ks then Some (F q) else None)"
    for F :: "'a \<Rightarrow> 'c" and ks and q
    by (induction ks) auto
  show ?thesis by (simp add: add_samples_eq m)
qed

lemma distinct_add_samples: "distinct (map fst (add_samples [] kvs))"
  by (simp add: add_samples_eq comp_def)

lemma avg_pollutant_ok:
  "vs \<noteq> [] \<Longrightarrow> avg_pollutant (p, vs) = Inr (p, mean2 vs)"
  by (simp add: avg_pollutant_def py_float_truediv_def bind_err_def mean2_def)

lemma avg_pollutants_ok:
  "map_err avg_pollutant (add_samples [] kvs) =
   Inr (map (\<lambda>(p, vs). (p, mean2 vs)) (add_samples [] kvs))"
  by (rule map_err_ok) (auto simp: avg_pollutant_ok dest: add_samples_nonempty)

lemma day_summary_day_bucket:
  "day_summary (d, day_bucket day) =
   bind_err (py_int_truediv (sum_list (map r_aqi day)) (int (length day))) (\<lambda>m.
   bind_err (py_round m) (\<lambda>a.
     Inr \<lparr>s_date = d, s_aqi = a, s_aqi_description = get_aqi_description a,
          s_pollutants = map (\<lambda>(p, vs). (p, mean2 vs))
             (add_samples [] (concat (map r_pollutants day)))\<rparr>))"
  by (simp add: day_summary_def day_bucket_aqi day_bucket_pollutants avg_pollutants_ok bind_err_def
      split: sum.splits)

lemma day_summary_date: "day_summary (d, b) = Inr s \<Longrightarrow> s_date s = d"
  by (auto simp: day_summary_def bind_err_def split: sum.splits)

lemma final_dates: "map_err day_summary G = Inr final \<Longrightarrow> map s_date final = map fst G"
proof (induction G arbitrary: final)
  case Nil
  then show ?case by simp
next
  case (Cons g G)
  obtain d b where g: "g = (d, b)" by (cases g)
  from Cons.prems obtain s ss where s: "day_summary g = Inr s" and ss: "map_err day_summary G = Inr ss"
    and f: "final = s # ss"
    by (auto split: sum.splits)
  show ?case using Cons.IH[OF ss] day_summary_date[of d b s] s g f by simp
qed

lemma strptime_date_Inr: "strptime_date d = Inr k \<Longrightarrow> k = d"
  by (auto simp: strptime_date_def split: prod.splits if_splits)

lemma strptime_date_Inl: "strptime_date d = Inl e \<Longrightarrow> e = ValueError"
  by (auto simp: strptime_date_def split: prod.splits if_splits)

lemma insort_key_decorated:
  "insort_key fst (f x, x) (map (\<lambda>x. (f x, x)) ys) = map (\<lambda>x. (f x, x)) (insort_key f x ys)"
  by (induction ys) auto

lemma sort_key_decorated:
  "sort_key fst (map (\<lambda>x. (f x, x)) xs) = map (\<lambda>x. (f x, x)) (sort_key f xs)"
  by (induction xs) (simp_all add: insort_key_decorated)

lemma sort_undecorate: "map snd (sort_key fst (zip (map f xs) xs)) = sort_key f xs"
proof -
  have "zip (map f xs) xs = map (\<lambda>x. (f x, x)) xs"
    by (induction xs) auto
  then show ?thesis by (simp add: sort_key_decorated comp_def)
qed

lemma map_err_keys:
  "map_err (\<lambda>x. strptime_date (s_date x)) xs = Inr keys \<Longrightarrow>
   keys = map s_date xs \<and> (\<forall>x\<in>set xs. strptime_date (s_date x) = Inr (s_date x))"
proof (induction xs arbitrary: keys)
  case Nil
  then show ?case by simp
next
  case (Cons x xs)
  from Cons.prems obtain k ks where k: "strptime_date (s_date x) = Inr k"
    and ks: "map_err (\<lambda>x. strptime_date (s_date x)) xs = Inr ks" and e: "keys = k # ks"
    by (auto split: sum.splits)
  have "k = s_date x" using k by (rule strptime_date_Inr)
  then show ?case using Cons.IH[OF ks] k e by simp
qed

lemma sort_by_date_Inr:
  assumes "sort_by_date xs = Inr ys"
  shows "ys = sort_key s_date xs"
    and "\<forall>x\<in>set xs. strptime_date (s_date x) = Inr (s_date x)"
proof -
  obtain keys where k: "map_err (\<lambda>x. strptime_date (s_date x)) xs = Inr keys"
    and y: "ys = map snd (sort_key fst (zip keys xs))"
    using assms by (auto simp: sort_by_date_def bind_err_def split: sum.splits)
  have "keys = map s_date xs" using map_err_keys[OF k] by simp
  then show "ys = sort_key s_date xs" using y by (simp add: sort_undecorate)
  show "\<forall>x\<in>set xs. strptime_date (s_date x) = Inr (s_date x)"
    using map_err_keys[OF k] by simp
qed

lemma sort_by_date_ok:
  assumes "\<forall>x\<in>set xs. strptime_date (s_date x) = Inr (s_date x)"
  shows "sort_by_date xs = Inr (sort_key s_date xs)"
proof -
  have "map_err (\<lambda>x. strptime_date (s_date x)) xs = Inr (map s_date xs)"
    using assms by (intro map_err_ok) simp
  then show ?thesis by (simp add: sort_by_date_def bind_err_def sort_undecorate)
qed

lemma sort_by_date_Inl:
  assumes "sort_by_date xs = Inl e"
  shows "e = ValueError" and "\<exists>x\<in>set xs. strptime_date (s_date x) = Inl ValueError"
proof -
  have "map_err (\<lambda>x. strptime_date (s_date x)) xs = Inl e"
    using assms by (auto simp: sort_by_date_def bind_err_def split: sum.splits)
  then obtain x where x: "x \<in> set xs" "strptime_date (s_date x) = Inl e"
    using map_err_Inl by fastforce
  then show "e = ValueError" using strptime_date_Inl by blast
  then show "\<exists>x\<in>set xs. strptime_date (s_date x) = Inl ValueError" using x by blast
qed

lemma aggregate_Inr:
  assumes "aggregate rs = Inr out"
  obtains final where "map_err day_summary (group_by_date rs) = Inr final"
    and "out = sort_key s_date final"
proof -
  obtain final where f: "map_err day_summary (group_by_date rs) = Inr final"
    and s: "sort_by_date final = Inr out"
    using assms by (auto simp: aggregate_def summarize_days_def bind_err_def split: sum.splits)
  show ?thesis using f sort_by_date_Inr(1)[OF s] by (rule that)
qed

lemma group_by_date_keys: "map fst (group_by_date rs) = first_seen (map r_date rs)"
  by (simp add: group_by_date_eq comp_def)

lemma aggregate_dates:
  assumes "aggregate rs = Inr out"
  shows "mset (map s_date out) = mset (first_seen (map r_date rs))"
proof -
  obtain final where f: "map_err day_summary (group_by_date rs) = Inr final"
    and o: "out = sort_key s_date final"
    using assms by (rule aggregate_Inr)
  have "mset (map s_date out) = mset (map s_date final)"
    unfolding o by simp
  then show ?thesis using final_dates[OF f] by (simp add: group_by_date_keys)
qed

lemma aggregate_distinct_dates:
  assumes "aggregate rs = Inr out"
  shows "distinct (map s_date out)" and "set (map s_date out) = r_date ` set rs"
proof -
  have m: "mset (map s_date out) = mset (first_seen (map r_date rs))"
    using assms by (rule aggregate_dates)
  have "distinct (first_seen (map r_date rs))" by simp
  then show "distinct (map s_date out)" using m by (metis mset_eq_imp_distinct_iff)
  have "set (map s_date out) = set (first_seen (map r_date rs))" using m by (rule mset_eq_setD)
  then show "set (map s_date out) = r_date ` set rs" by simp
qed

lemma aggregate_member:
  assumes "aggregate rs = Inr out" "s \<in> set out"
  shows "s_date s \<in> r_date ` set rs"
    and "day_summary (s_date s, day_bucket (filter (\<lambda>r. r_date r = s_date s) rs)) = Inr s"
proof -
  obtain final where f: "map_err day_summary (group_by_date rs) = Inr final"
    and o: "out = sort_key s_date final"
    using assms(1) by (rule aggregate_Inr)
  have "s \<in> set final" using assms(2) o by simp
  then obtain i where i: "i < length final" "s = final ! i"
    by (auto simp: in_set_conv_nth)
  have l: "list_all2 (\<lambda>x y. day_summary x = Inr y) (group_by_date rs) final"
    using f by (rule map_err_Inr)
  define g where "g = group_by_date rs ! i"
  have "i < length (group_by_date rs)" using l i(1) by (simp add: list_all2_lengthD)
  then have g1: "g \<in> set (group_by_date rs)" by (simp add: g_def)
  have g2: "day_summary g = Inr s" using list_all2_nthD2[OF l i(1)] i(2) by (simp add: g_def)
  note g = g1 g2
  obtain d where d: "d \<in> r_date ` set rs" "g = (d, day_bucket (filter (\<lambda>r. r_date r = d) rs))"
    using g(1) by (auto simp: group_by_date_eq)
  have "s_date s = d" using g(2) d(2) day_summary_date by simp
  then show "s_date s \<in> r_date ` set rs"
    and "day_summary (s_date s, day_bucket (filter (\<lambda>r. r_date r = s_date s) rs)) = Inr s"
    using d g(2) by simp_all
qed

subsection \<open>Means of codes between 1 and 5\<close>

lemma sum_list_bounds:
  fixes xs :: "int list"
  assumes "\<And>x. x \<in> set xs \<Longrightarrow> lo \<le> x \<and> x \<le> hi"
  shows "lo * int (length xs) \<le> sum_list xs \<and> sum_list xs \<le> hi * int (length xs)"
  using assms
proof (induction xs)
  case Nil
  show ?case by simp
next
  case (Cons x xs)
  have "lo \<le> x \<and> x \<le> hi" using Cons.prems by simp
  moreover have "lo * int (length xs) \<le> sum_list xs \<and> sum_list xs \<le> hi * int (length xs)"
    using Cons by simp
  ultimately show ?case by (simp add: algebra_simps)
qed

lemma mean_in_range:
  fixes xs :: "int list"
  assumes "xs \<noteq> []" "\<And>x. x \<in> set xs \<Longrightarrow> 1 \<le> x \<and> x \<le> 5"
  shows "\<exists>y. py_int_truediv (sum_list xs) (int (length xs)) = Inr (Finite y) \<and> 1 \<le> y \<and> y \<le> 5"
proof -
  define n :: rat where "n = of_int (int (length xs))"
  define m :: rat where "m = of_int (sum_list xs) / n"
  have n0: "0 < n" using assms(1) by (simp add: n_def)
  have b: "1 * int (length xs) \<le> sum_list xs \<and> sum_list xs \<le> 5 * int (length xs)"
    using assms(2) by (rule sum_list_bounds)
  have "of_int (1 * int (length xs)) \<le> (of_int (sum_list xs) :: rat)"
    using b by (simp only: of_int_le_iff)
  then have lo: "1 \<le> m" using n0 by (simp add: m_def n_def field_simps)
  have "(of_int (sum_list xs) :: rat) \<le> of_int (5 * int (length xs))"
    using b by (simp only: of_int_le_iff)
  then have hi: "m \<le> 5" using n0 by (simp add: m_def n_def field_simps)
  have "m < 2 ^ 53" using hi by simp
  moreover have "of_int 1 \<le> m" "m \<le> of_int 5" using lo hi by simp_all
  ultimately obtain y where y: "binary64 m = Finite y" "of_int 1 \<le> y" "y \<le> of_int 5"
    using binary64_between[OF lo] by blast
  have "int (length xs) \<noteq> 0" using assms(1) by simp
  then have "py_int_truediv (sum_list xs) (int (length xs)) = Inr (Finite y)"
    using y(1) by (simp add: py_int_truediv_def m_def n_def)
  then show ?thesis using y(2,3) by simp
qed

lemma label_known: "1 \<le> a \<Longrightarrow> a \<le> 5 \<Longrightarrow> get_aqi_description a \<noteq> ''Unknown''"
proof -
  assume "1 \<le> a" "a \<le> 5"
  then have "a = 1 \<or> a = 2 \<or> a = 3 \<or> a = 4 \<or> a = 5" by arith
  then show ?thesis by (auto simp: get_aqi_description_def)
qed

lemma map_err_all:
  assumes "\<And>x. x \<in> set xs \<Longrightarrow> \<exists>y. f x = Inr y \<and> P y"
  shows "\<exists>ys. map_err f xs = Inr ys \<and> (\<forall>y\<in>set ys. P y)"
  using assms
proof (induction xs)
  case Nil
  show ?case by simp
next
  case (Cons x xs)
  obtain y where y: "f x = Inr y" "P y" using Cons.prems[of x] by auto
  obtain ys where ys: "map_err f xs = Inr ys" "\<forall>y\<in>set ys. P y" using Cons by auto
  show ?case using y ys by simp
qed

subsection \<open>A single day\<close>

lemma round_half_even_numeral [simp]: "round_half_even (numeral n) = numeral n"
  using round_half_even_of_int[of "numeral n"] by simp

lemma distinct_singleton_set:
  assumes "distinct xs" "set xs = {d}"
  shows "xs = [d]"
proof (cases xs)
  case Nil
  then show ?thesis using assms(2) by simp
next
  case (Cons y ys)
  have y: "y = d" using assms(2) Cons by auto
  have "\<forall>z\<in>set ys. z = d" using assms(2) Cons by auto
  moreover have "d \<notin> set ys" using assms(1) Cons y by simp
  ultimately have "\<forall>z\<in>set ys. False" by metis
  then have "ys = []" by (cases ys) auto
  then show ?thesis using Cons y by simp
qed

lemma first_seen_const:
  assumes "xs \<noteq> []" "\<forall>x\<in>set xs. x = d"
  shows "first_seen xs = [d]"
proof -
  obtain y where "y \<in> set xs" using assms(1) by (cases xs) auto
  then have "d \<in> set xs" using assms(2) by metis
  then have "set xs = {d}" using assms(2) by blast
  then have "set (first_seen xs) = {d}" by simp
  with distinct_first_seen show ?thesis by (rule distinct_singleton_set)
qed

lemma group_by_date_single_day:
  assumes "rs \<noteq> []" "\<forall>r\<in>set rs. r_date r = d"
  shows "group_by_date rs = [(d, day_bucket rs)]"
proof -
  have "first_seen (map r_date rs) = [d]"
    using assms by (intro first_seen_const) auto
  moreover have "filter (\<lambda>r. r_date r = d) rs = rs"
    using assms(2) by (simp add: filter_id_conv)
  ultimately show ?thesis by (simp add: group_by_date_eq)
qed

lemma sort_by_date_single:
  "sort_by_date [s] = bind_err (strptime_date (s_date s)) (\<lambda>k. Inr [s])"
  by (simp add: sort_by_date_def bind_err_def split: sum.splits)

lemma aggregate_single_day:
  assumes "rs \<noteq> []" "\<forall>r\<in>set rs. r_date r = d"
  shows "aggregate rs =
    bind_err (day_summary (d, day_bucket rs)) (\<lambda>s. bind_err (strptime_date d) (\<lambda>k. Inr [s]))"
proof (cases "day_summary (d, day_bucket rs)")
  case (Inl e)
  then show ?thesis
    by (simp add: aggregate_def summarize_days_def group_by_date_single_day[OF assms]
        bind_err_def)
next
  case (Inr s)
  then have "s_date s = d" by (rule day_summary_date)
  then show ?thesis
    using Inr
    by (simp add: aggregate_def summarize_days_def group_by_date_single_day[OF assms]
        sort_by_date_single bind_err_def)
qed

lemma binary64_3: "binary64 3 = Finite 3"
  using binary64_of_int[of 3] by simp

lemma binary64_10: "binary64 10 = Finite 10"
  using binary64_of_int[of 10] by simp

lemma binary64_30: "binary64 30 = Finite 30"
  using binary64_of_int[of 30] by simp

lemma binary64_15: "binary64 15 = Finite 15"
  using binary64_of_int[of 15] by simp

lemma mean2_10_20: "mean2 [Finite 10, Finite 20] = Finite 15"
  by (simp add: mean2_def py_sum_def binary64_10 binary64_30 binary64_15)

lemma one_day_run:
  "aggregate one_day =
   Inr [\<lparr>s_date = (2024, 1, 2), s_aqi = 2, s_aqi_description = ''Fair'',
         s_pollutants = [(''pm2_5'', Finite 15), (''pm10'', Finite 30)]\<rparr>]"
  by code_simp

subsection \<open>One sample per channel\<close>

lemma dd_update_notin:
  "k \<notin> fst ` set d \<Longrightarrow> dd_update dflt k f d = d @ [(k, f dflt)]"
  by (induction d) auto

lemma add_samples_distinct:
  "distinct (map fst kvs) \<Longrightarrow> add_samples [] kvs = map (\<lambda>(p, v). (p, [v])) kvs"
proof (induction kvs rule: rev_induct)
  case Nil
  show ?case by (simp add: add_samples_def)
next
  case (snoc kv kvs)
  obtain p v where kv: "kv = (p, v)" by (cases kv)
  have d: "distinct (map fst kvs)" and n: "p \<notin> fst ` set kvs"
    using snoc.prems kv by auto
  have "p \<notin> fst ` set (map (\<lambda>(p, v). (p, [v])) kvs)"
    using n by (auto simp: image_iff)
  then have "dd_update [] p (\<lambda>vs. vs @ [v]) (map (\<lambda>(p, v). (p, [v])) kvs) =
      map (\<lambda>(p, v). (p, [v])) kvs @ [(p, [v])]"
    by (simp add: dd_update_notin)
  then show ?case
    using snoc.IH[OF d] by (simp add: add_samples_append kv) (simp add: add_samples_def)
qed

lemma mean2_single: "is_binary64 v \<Longrightarrow> mean2 [v] = py_round2 v"
  by (cases v) (simp_all add: mean2_def py_sum_def)

subsection \<open>Buckets, channels and exceptions\<close>








lemma py_int_truediv_error:
  "b \<noteq> 0 \<Longrightarrow> py_int_truediv a b = Inl e \<Longrightarrow> e = OverflowError"
  by (cases "binary64 (of_int a / of_int b)") (auto simp: py_int_truediv_def)

lemma py_int_truediv_finite:
  assumes "py_int_truediv a b = Inr m"
  shows "\<exists>y. m = Finite y"
proof (cases "binary64 (of_int a / of_int b)")
  case (Finite y)
  then have "m = Finite y" using assms by (simp add: py_int_truediv_def split: if_splits)
  then show ?thesis ..
qed (use assms in \<open>simp_all add: py_int_truediv_def split: if_splits\<close>)

lemma day_summary_error:
  assumes "g \<in> set (group_by_date rs)" "day_summary g = Inl e"
  shows "e = OverflowError"
proof -
  obtain d where d: "d \<in> r_date ` set rs"
    and ge: "g = (d, day_bucket (filter (\<lambda>r. r_date r = d) rs))"
    using assms(1) by (auto simp: group_by_date_eq)
  let ?day = "filter (\<lambda>r. r_date r = d) rs"
  have "?day \<noteq> []" using d by (auto simp: filter_empty_conv)
  then have n: "int (length ?day) \<noteq> 0" by simp
  show ?thesis
  proof (cases "py_int_truediv (sum_list (map r_aqi ?day)) (int (length ?day))")
    case (Inl e')
    then have "e' = OverflowError" using n by (intro py_int_truediv_error)
    moreover have "e = e'"
      using assms(2) Inl by (simp add: ge day_summary_day_bucket bind_err_def)
    ultimately show ?thesis by simp
  next
    case (Inr m)
    then obtain y where "m = Finite y" using py_int_truediv_finite by blast
    then show ?thesis
      using assms(2) Inr by (simp add: ge day_summary_day_bucket bind_err_def)
  qed
qed


lemma aggregate_returns:
  assumes "map_err day_summary (group_by_date rs) = Inr final"
    and "\<forall>r\<in>set rs. strptime_date (r_date r) = Inr (r_date r)"
  shows "aggregate rs = Inr (sort_key s_date final)"
proof -
  have "set (map s_date final) = r_date ` set rs"
    using final_dates[OF assms(1)] by (simp add: group_by_date_keys)
  then have "\<forall>x\<in>set final. strptime_date (s_date x) = Inr (s_date x)"
    using assms(2) by (metis (no_types, lifting) imageE image_eqI list.set_map)
  then have "sort_by_date final = Inr (sort_key s_date final)" by (rule sort_by_date_ok)
  then show ?thesis
    using assms(1) by (simp add: aggregate_def summarize_days_def bind_err_def)
qed



subsection \<open>What a run depends on\<close>

lemma group_by_date_cong:
  assumes "map (\<lambda>r. (r_date r, r_aqi r, r_pollutants r)) rs =
           map (\<lambda>r. (r_date r, r_aqi r, r_pollutants r)) rs'"
  shows "group_by_date rs = group_by_date rs'"
proof -
  have "foldl add_reading dd rs = foldl add_reading dd rs'" for dd
    using assms
  proof (induction rs arbitrary: rs' dd)
    case Nil
    then show ?case by simp
  next
    case (Cons r rs)
    then obtain r' rs'' where c: "rs' = r' # rs''" by (cases rs') auto
    have h: "r_date r = r_date r'" "r_aqi r = r_aqi r'" "r_pollutants r = r_pollutants r'"
      using Cons.prems c by simp_all
    have t: "map (\<lambda>r. (r_date r, r_aqi r, r_pollutants r)) rs =
        map (\<lambda>r. (r_date r, r_aqi r, r_pollutants r)) rs''"
      using Cons.prems c by simp
    have "add_reading dd r = add_reading dd r'" by (simp add: add_reading_def h)
    then show ?case using Cons.IH[OF t] c by simp
  qed
  then show ?thesis by (simp add: group_by_date_def)
qed

lemma map_err_Inr_map:
  "map_err f xs = Inr us \<Longrightarrow> us = map (\<lambda>x. projr (f x)) xs \<and> (\<forall>x\<in>set xs. f x = Inr (projr (f x)))"
  by (induction xs arbitrary: us) (auto split: sum.splits)

lemma map_err_perm:
  assumes "mset xs = mset ys" "map_err f xs = Inr us"
  shows "\<exists>vs. map_err f ys = Inr vs \<and> mset vs = mset us"
proof -
  have u: "us = map (\<lambda>x. projr (f x)) xs" and a: "\<forall>x\<in>set xs. f x = Inr (projr (f x))"
    using map_err_Inr_map[OF assms(2)] by simp_all
  have "set ys = set xs" using assms(1) by (metis mset_eq_setD)
  then have "map_err f ys = Inr (map (\<lambda>x. projr (f x)) ys)"
    using a by (intro map_err_ok) simp
  moreover have "mset (map (\<lambda>x. projr (f x)) ys) = mset us"
    unfolding u using arg_cong[OF assms(1), of "image_mset (\<lambda>x. projr (f x))"] by simp
  ultimately show ?thesis by blast
qed

lemma sort_key_perm:
  assumes "mset xs = mset ys" "distinct (map f xs)"
  shows "sort_key f xs = sort_key f ys"
proof -
  have st: "set ys = set xs" using assms(1) by (metis mset_eq_setD)
  have "mset (map f xs) = mset (map f ys)"
    using arg_cong[OF assms(1), of "image_mset f"] by simp
  then have dy: "distinct (map f ys)" using assms(2) by (metis mset_eq_imp_distinct_iff)
  have "map f (sort_key f xs) = map f (sort_key f ys)"
  proof (rule sorted_distinct_set_unique)
    show "distinct (map f (sort_key f xs))"
      using assms(2) by (simp add: distinct_map)
    show "distinct (map f (sort_key f ys))"
      using dy by (simp add: distinct_map)
  qed (simp_all add: st)
  moreover have "inj_on f (set (sort_key f xs) \<union> set (sort_key f ys))"
    using assms(2) st by (simp add: distinct_map)
  ultimately show ?thesis by (simp add: inj_on_map_eq_map)
qed

lemma sort_by_date_perm:
  assumes "mset xs = mset ys" "distinct (map s_date xs)"
  shows "sort_by_date xs = sort_by_date ys"
proof -
  have st: "set ys = set xs" using assms(1) by (metis mset_eq_setD)
  show ?thesis
  proof (cases "\<forall>x\<in>set xs. strptime_date (s_date x) = Inr (s_date x)")
    case True
    then have "sort_by_date xs = Inr (sort_key s_date xs)"
      and "sort_by_date ys = Inr (sort_key s_date ys)"
      using st by (simp_all add: sort_by_date_ok)
    then show ?thesis using sort_key_perm[OF assms] by simp
  next
    case False
    have "sort_by_date zs = Inl ValueError" if "set zs = set xs" for zs
    proof (cases "sort_by_date zs")
      case (Inl e)
      then show ?thesis using sort_by_date_Inl(1) by blast
    next
      case (Inr out)
      then show ?thesis using sort_by_date_Inr(2)[OF Inr] False that by simp
    qed
    then show ?thesis using st by simp
  qed
qed

lemma summarize_days_perm:
  assumes "mset bs = mset (group_by_date rs)"
  shows "summarize_days bs = aggregate rs"
proof -
  let ?G = "group_by_date rs"
  have st: "set bs = set ?G" using assms by (metis mset_eq_setD)
  show ?thesis
  proof (cases "map_err day_summary ?G")
    case (Inr final)
    obtain final' where f': "map_err day_summary bs = Inr final'" and m: "mset final' = mset final"
      using map_err_perm[OF assms[symmetric] Inr] by blast
    have "distinct (map s_date final)"
      using final_dates[OF Inr] by (simp add: group_by_date_keys)
    then have "sort_by_date final = sort_by_date final'"
      using m by (intro sort_by_date_perm) simp_all
    then show ?thesis
      using Inr f' by (simp add: aggregate_def summarize_days_def bind_err_def)
  next
    case (Inl e)
    have e: "e = OverflowError"
      using map_err_Inl[OF Inl] day_summary_error by blast
    have "map_err day_summary bs = Inl OverflowError"
    proof (cases "map_err day_summary bs")
      case l: (Inl e')
      then show ?thesis using map_err_Inl[OF l] day_summary_error st by blast
    next
      case r: (Inr final')
      then show ?thesis using map_err_perm[OF assms r] Inl by auto
    qed
    then show ?thesis
      using Inl e by (simp add: aggregate_def summarize_days_def bind_err_def)
  qed
qed

lemma map_err_agree: "\<forall>x\<in>set xs. f x = g x \<Longrightarrow> map_err f xs = map_err g xs"
  by (induction xs) (auto split: sum.splits)

lemma process_item_agree:
  "\<forall>t. item_dt item = Some t \<longrightarrow> f t = g t \<Longrightarrow> process_item f item = process_item g item"
  by (cases "item_dt item") (simp_all add: process_item_def field_def bind_err_def)

subsection \<open>Missing keys\<close>

lemma map_err_component:
  "item_components item = Some c \<Longrightarrow>
   map_err (component item) ks =
     (case find (\<lambda>k. map_of c k = None) ks of
        Some k \<Rightarrow> Inl (KeyError k)
      | None \<Rightarrow> Inr (map (\<lambda>k. the (map_of c k)) ks))"
  by (induction ks)
     (auto simp: component_def field_def bind_err_def getitem_def split: option.splits)

lemma process_item_missing:
  assumes "first_missing item = Some k"
    and "\<forall>t. item_dt item = Some t \<longrightarrow> (\<exists>dt. fromtimestamp t = Inr dt)"
  shows "process_item fromtimestamp item = Inl (KeyError k)"
proof (cases "item_dt item")
  case None
  then show ?thesis
    using assms(1) by (simp add: first_missing_def process_item_def field_def bind_err_def)
next
  case (Some t)
  then obtain dt where dt: "fromtimestamp t = Inr dt" using assms(2) by blast
  show ?thesis
  proof (cases "item_main item")
    case None
    then show ?thesis
      using assms(1) Some dt
      by (simp add: first_missing_def process_item_def field_def bind_err_def)
  next
    case m: (Some m)
    show ?thesis
    proof (cases "map_of m ''aqi''")
      case None
      then show ?thesis
        using assms(1) Some dt m
        by (simp add: first_missing_def process_item_def field_def bind_err_def getitem_def)
    next
      case a: (Some a)
      show ?thesis
      proof (cases "item_components item")
        case None
        then show ?thesis
          using assms(1) Some dt m a
          by (simp add: first_missing_def process_item_def field_def bind_err_def getitem_def
              pollutant_names_def component_def)
      next
        case c: (Some c)
        have "find (\<lambda>k. map_of c k = None) pollutant_names = Some k"
          using assms(1) Some m a c by (simp add: first_missing_def)
        then have "map_err (component item) pollutant_names = Inl (KeyError k)"
          by (simp add: map_err_component[OF c])
        then show ?thesis
          using Some dt m a
          by (simp add: process_item_def field_def bind_err_def getitem_def)
      qed
    qed
  qed
qed

lemma process_item_complete:
  assumes "process_item fromtimestamp item = Inr r"
  shows "first_missing item = None"
proof (rule ccontr)
  assume "first_missing item \<noteq> None"
  then obtain k where k: "first_missing item = Some k" by auto
  show False
  proof (cases "item_dt item")
    case None
    then show ?thesis using assms by (simp add: process_item_def field_def bind_err_def)
  next
    case (Some t)
    show ?thesis
    proof (cases "fromtimestamp t")
      case (Inl e)
      then show ?thesis using assms Some by (simp add: process_item_def field_def bind_err_def)
    next
      case (Inr dt)
      then have "\<forall>t. item_dt item = Some t \<longrightarrow> (\<exists>dt. fromtimestamp t = Inr dt)"
        using Some by simp
      then show ?thesis using process_item_missing[OF k] assms by simp
    qed
  qed
qed

lemma process_item_ok:
  assumes "item_dt item = Some t" "fromtimestamp t = Inr dt" "first_missing item = None"
  shows "\<exists>r. process_item fromtimestamp item = Inr r"
proof -
  obtain m where m: "item_main item = Some m"
    using assms(1,3) by (auto simp: first_missing_def split: option.splits)
  obtain a where a: "map_of m ''aqi'' = Some a"
    using assms(1,3) m by (auto simp: first_missing_def split: option.splits if_splits)
  obtain c where c: "item_components item = Some c"
    using assms(1,3) m a by (auto simp: first_missing_def split: option.splits)
  have "find (\<lambda>k. map_of c k = None) pollutant_names = None"
    using assms(1,3) m a c by (simp add: first_missing_def)
  then have "map_err (component item) pollutant_names =
      Inr (map (\<lambda>k. the (map_of c k)) pollutant_names)"
    by (simp add: map_err_component[OF c])
  then show ?thesis
    using assms(1,2) m a by (simp add: process_item_def field_def bind_err_def getitem_def)
qed

lemma process_item_error:
  assumes "process_item fromtimestamp item = Inl e"
  shows "(\<exists>k. first_missing item = Some k \<and> e = KeyError k) \<or>
         (\<exists>t. item_dt item = Some t \<and> fromtimestamp t = Inl e)"
proof (cases "item_dt item")
  case None
  then have "first_missing item = Some ''dt''" by (simp add: first_missing_def)
  moreover have "e = KeyError ''dt''"
    using assms None by (simp add: process_item_def field_def bind_err_def)
  ultimately show ?thesis by blast
next
  case (Some t)
  show ?thesis
  proof (cases "fromtimestamp t")
    case (Inl e')
    then have "e = e'" using assms Some by (simp add: process_item_def field_def bind_err_def)
    then show ?thesis using Some Inl by blast
  next
    case (Inr dt)
    show ?thesis
    proof (cases "first_missing item")
      case None
      then obtain r where "process_item fromtimestamp item = Inr r"
        using process_item_ok[of item t fromtimestamp dt] Some Inr by blast
      then show ?thesis using assms by simp
    next
      case k: (Some k)
      have "\<forall>t. item_dt item = Some t \<longrightarrow> (\<exists>dt. fromtimestamp t = Inr dt)"
        using Some Inr by simp
      then have "process_item fromtimestamp item = Inl (KeyError k)"
        using k by (intro process_item_missing)
      then show ?thesis using assms k by simp
    qed
  qed
qed

lemma example_item_processed:
  "process_item utc_fromtimestamp example_item =
   Inr \<lparr>r_date = (2024, 1, 2), r_datetime = \<lparr>dt_date = (2024, 1, 2), dt_seconds = 0\<rparr>,
        r_aqi = 2, r_pollutants = example_components\<rparr>"
  by code_simp

lemma example_timestamp: "utc_fromtimestamp 1704157200 = Inr \<lparr>dt_date = (2024, 1, 2), dt_seconds = 3600\<rparr>"
  by code_simp

lemma example_item_no_so2_missing: "first_missing example_item_no_so2 = Some ''so2''"
  by code_simp

lemma example_item_run:
  "get_aqi_data utc_fromtimestamp (Inr \<lparr>data_list = Some [example_item]\<rparr>) =
   Inr [\<lparr>s_date = (2024, 1, 2), s_aqi = 2, s_aqi_description = ''Fair'',
         s_pollutants =
           [(''co'', Finite (807 / 4)),
            (''no'', Finite (1080863910568919 / 9007199254740992)),
            (''no2'', Finite (3 / 4)),
            (''o3'', Finite (603587903183913 / 8796093022208)),
            (''so2'', Finite (5584463537939415 / 9007199254740992)),
            (''pm2_5'', Finite (1 / 2)),
            (''pm10'', Finite (1261007895663739 / 2251799813685248)),
            (''nh3'', Finite (1080863910568919 / 9007199254740992))]\<rparr>]"
  by code_simp

lemma example_item_no_main_run:
  "first_missing example_item_no_main = Some ''main'' \<and>
   get_aqi_data utc_fromtimestamp (Inr \<lparr>data_list = Some [example_item_no_main]\<rparr>) =
     Inl ValueError"
  by code_simp

lemma example_item_big_aqi_run:
  "map_sum id (map s_aqi)
     (get_aqi_data utc_fromtimestamp (Inr \<lparr>data_list = Some [example_item_big_aqi]\<rparr>)) =
   Inr [9007199254740992]"
  by code_simp

lemma example_item_year_999_run:
  "map_sum id r_date (process_item utc_fromtimestamp example_item_year_999) =
     Inr (999, 12, 31) \<and>
   get_aqi_data utc_fromtimestamp (Inr \<lparr>data_list = Some [example_item_year_999]\<rparr>) =
     Inl ValueError"
  by code_simp

subsection \<open>The sample run\<close>

lemma example_run: "aggregate example_readings = Inr example_summaries"
  by code_simp

section \<open>The claims\<close>

subsection \<open>Grouping by date\<close>

text \<open>
  C1. The second loop builds one bucket per distinct date of the input, whatever the
  input: the keys of \<open>daily_data\<close> are distinct and are the dates of the readings, and
  the bucket of a date holds exactly the samples of that date: its AQI samples are the AQI
  codes of the readings of that date, each once and in arrival order, and its samples of a
  channel are the values of that channel in those readings, each once and in arrival
  order (no entry for a channel without a value that day). Whenever the aggregation
  returns a list, the list has one summary per bucket: the number of distinct output
  dates, and the length of the output, equal the number of distinct dates among the
  readings, every reading belongs to exactly one output day, the one of its date, and
  each output day is what the averaging body \<open>day_summary\<close> computes from the bucket of
  its date. (The aggregation can raise \<open>OverflowError\<close>, from an AQI mean too large for a
  float, and \<open>ValueError\<close>, from the sort key of a date whose year has fewer than four
  digits; with codes from 1 to 5 and four-digit years it returns.)
\<close>

theorem aggregate_groups_by_date:
  "distinct (map fst (group_by_date rs)) \<and>
   set (map fst (group_by_date rs)) = set (map r_date rs) \<and>
   (\<forall>g\<in>set (group_by_date rs).
      b_aqi_values (snd g) = map r_aqi (filter (\<lambda>r. r_date r = fst g) rs) \<and>
      (\<forall>p. map_of (b_pollutants (snd g)) p =
         (let vs = map snd (filter (\<lambda>kv. fst kv = p)
                     (concat (map r_pollutants (filter (\<lambda>r. r_date r = fst g) rs))))
          in if vs = [] then None else Some vs))) \<and>
   (\<forall>out. aggregate rs = Inr out \<longrightarrow>
      card (set (map s_date out)) = card (set (map r_date rs)) \<and>
      length out = card (set (map r_date rs)) \<and>
      (\<forall>r\<in>set rs. \<exists>!s. s \<in> set out \<and> s_date s = r_date r) \<and>
      (\<forall>s\<in>set out. \<exists>b. (s_date s, b) \<in> set (group_by_date rs) \<and>
                             day_summary (s_date s, b) = Inr s))"
proof -
  have k1: "distinct (map fst (group_by_date rs))"
    by (simp add: group_by_date_keys)
  have k2: "set (map fst (group_by_date rs)) = set (map r_date rs)"
    by (simp add: group_by_date_keys)
  have k3: "b_aqi_values (snd g) = map r_aqi (filter (\<lambda>r. r_date r = fst g) rs) \<and>
      (\<forall>p. map_of (b_pollutants (snd g)) p =
         (let vs = map snd (filter (\<lambda>kv. fst kv = p)
                     (concat (map r_pollutants (filter (\<lambda>r. r_date r = fst g) rs))))
          in if vs = [] then None else Some vs))" if g: "g \<in> set (group_by_date rs)" for g
  proof -
    let ?day = "filter (\<lambda>r. r_date r = fst g) rs"
    have ge: "snd g = day_bucket ?day"
      using g by (auto simp: group_by_date_eq)
    have c: "map_of (b_pollutants (day_bucket ?day)) p =
        (let vs = map snd (filter (\<lambda>kv. fst kv = p) (concat (map r_pollutants ?day)))
         in if vs = [] then None else Some vs)" for p
      unfolding day_bucket_pollutants map_of_add_samples Let_def
      by (force simp: filter_empty_conv)
    show ?thesis unfolding ge using c by (simp add: day_bucket_aqi)
  qed
  have k4: "card (set (map s_date out)) = card (set (map r_date rs)) \<and>
      length out = card (set (map r_date rs)) \<and>
      (\<forall>r\<in>set rs. \<exists>!s. s \<in> set out \<and> s_date s = r_date r) \<and>
      (\<forall>s\<in>set out. \<exists>b. (s_date s, b) \<in> set (group_by_date rs) \<and>
                             day_summary (s_date s, b) = Inr s)"
    if agg: "aggregate rs = Inr out" for out
  proof -
    have d: "distinct (map s_date out)" and st: "set (map s_date out) = r_date ` set rs"
      using aggregate_distinct_dates[OF agg] by simp_all
    have 1: "card (set (map s_date out)) = card (set (map r_date rs))"
      using st by simp
    have 2: "length out = card (set (map r_date rs))"
      using distinct_card[OF d] 1 by simp
    have 3: "\<exists>!s. s \<in> set out \<and> s_date s = r_date r" if r: "r \<in> set rs" for r
    proof -
      have "r_date r \<in> set (map s_date out)" using st r by simp
      then obtain s where s: "s \<in> set out" "s_date s = r_date r" by auto
      have "s' = s" if "s' \<in> set out" "s_date s' = r_date r" for s'
        using d that s by (auto simp: distinct_map inj_on_def)
      then show ?thesis using s by blast
    qed
    have 4: "\<exists>b. (s_date s, b) \<in> set (group_by_date rs) \<and> day_summary (s_date s, b) = Inr s"
      if s: "s \<in> set out" for s
    proof -
      let ?b = "day_bucket (filter (\<lambda>r. r_date r = s_date s) rs)"
      have "day_summary (s_date s, ?b) = Inr s"
        using agg s by (rule aggregate_member(2))
      moreover have "s_date s \<in> r_date ` set rs"
        using agg s by (rule aggregate_member(1))
      then have "(s_date s, ?b) \<in> set (group_by_date rs)"
        by (simp add: group_by_date_eq image_iff)
      ultimately show ?thesis by blast
    qed
    show ?thesis using 1 2 3 4 by blast
  qed
  show ?thesis using k1 k2 k3 k4 by blast
qed

theorem aggregate_groups_by_date_witness:
  "aggregate example_readings = Inr example_summaries \<and>
   card (set (map s_date example_summaries)) = card (set (map r_date example_readings)) \<and>
   length example_summaries = 3"
proof -
  have "card (set (map r_date example_readings)) = 3"
    by (simp add: example_readings_def example_reading_def)
  then show ?thesis
    using aggregate_groups_by_date[of example_readings] example_run by simp
qed

subsection \<open>The two worked means\<close>

text \<open>
  C2. Readings of a single day with the AQI codes 2, 3, 3, 4 give one summary with
  \<open>aqi = round(12 / 4) = 3\<close> and the label Moderate: the aggregation returns it when the
  sort key of the date parses (a date with a four-digit year), and whenever it returns a
  list, the list is that one summary. Readings of a single day whose \<open>pm2_5\<close> values are
  10.0 and 20.0 give, when the aggregation returns, one summary with
  \<open>pollutants['pm2_5'] = round(30.0 / 2, 2) = 15.0\<close>. The other fields of the readings
  are arbitrary.
\<close>

theorem mean_examples:
  "((\<forall>r\<in>set rs. r_date r = d) \<and> map r_aqi rs = [2, 3, 3, 4] \<and>
    strptime_date d = Inr d \<longrightarrow>
      (\<exists>s. aggregate rs = Inr [s] \<and> s_date s = d \<and> s_aqi s = 3 \<and>
            s_aqi_description s = ''Moderate'')) \<and>
   ((\<forall>r\<in>set rs. r_date r = d) \<and> map r_aqi rs = [2, 3, 3, 4] \<and>
    aggregate rs = Inr out0 \<longrightarrow>
      (\<exists>s. out0 = [s] \<and> s_date s = d \<and> s_aqi s = 3 \<and>
            s_aqi_description s = ''Moderate'')) \<and>
   ((\<forall>r\<in>set rs'. r_date r = d') \<and>
    map snd (filter (\<lambda>kv. fst kv = ''pm2_5'') (concat (map r_pollutants rs'))) =
      [Finite 10, Finite 20] \<and>
    aggregate rs' = Inr out \<longrightarrow>
      (\<exists>s. out = [s] \<and> s_date s = d' \<and> map_of (s_pollutants s) ''pm2_5'' = Some (Finite 15)))"
proof -
  have day: "aggregate rs =
      bind_err (strptime_date d) (\<lambda>k.
        Inr [\<lparr>s_date = d, s_aqi = 3, s_aqi_description = ''Moderate'',
              s_pollutants = map (\<lambda>(p, vs). (p, mean2 vs))
                (add_samples [] (concat (map r_pollutants rs)))\<rparr>])"
    if a: "(\<forall>r\<in>set rs. r_date r = d) \<and> map r_aqi rs = [2, 3, 3, 4]"
  proof -
    have ne: "rs \<noteq> []" using a by auto
    have "length (map r_aqi rs) = 4" using a by simp
    then have len: "length rs = 4" by simp
    have "py_int_truediv (sum_list (map r_aqi rs)) (int (length rs)) = Inr (Finite 3)"
      using a len by (simp add: py_int_truediv_def binary64_3)
    then have "day_summary (d, day_bucket rs) =
        Inr \<lparr>s_date = d, s_aqi = 3, s_aqi_description = ''Moderate'',
             s_pollutants = map (\<lambda>(p, vs). (p, mean2 vs))
               (add_samples [] (concat (map r_pollutants rs)))\<rparr>"
      by (simp add: day_summary_day_bucket bind_err_def get_aqi_description_def)
    then show ?thesis
      using a by (simp add: aggregate_single_day[OF ne, of d] bind_err_def)
  qed
  have 1: "\<exists>s. aggregate rs = Inr [s] \<and> s_date s = d \<and> s_aqi s = 3 \<and>
      s_aqi_description s = ''Moderate''"
    if "(\<forall>r\<in>set rs. r_date r = d) \<and> map r_aqi rs = [2, 3, 3, 4] \<and> strptime_date d = Inr d"
    using that day by (simp add: bind_err_def)
  have 2: "\<exists>s. out0 = [s] \<and> s_date s = d \<and> s_aqi s = 3 \<and>
      s_aqi_description s = ''Moderate''"
    if "(\<forall>r\<in>set rs. r_date r = d) \<and> map r_aqi rs = [2, 3, 3, 4] \<and> aggregate rs = Inr out0"
    using that day by (auto simp: bind_err_def split: sum.splits)
  have 3: "\<exists>s. out = [s] \<and> s_date s = d' \<and> map_of (s_pollutants s) ''pm2_5'' = Some (Finite 15)"
    if b: "(\<forall>r\<in>set rs'. r_date r = d') \<and>
      map snd (filter (\<lambda>kv. fst kv = ''pm2_5'') (concat (map r_pollutants rs'))) =
        [Finite 10, Finite 20] \<and>
      aggregate rs' = Inr out"
  proof -
    let ?kvs = "concat (map r_pollutants rs')"
    have ne: "rs' \<noteq> []" using b by auto
    have agg: "aggregate rs' =
        bind_err (day_summary (d', day_bucket rs')) (\<lambda>s. bind_err (strptime_date d') (\<lambda>k. Inr [s]))"
      using b by (intro aggregate_single_day[OF ne]) blast
    then obtain s where s: "day_summary (d', day_bucket rs') = Inr s" "out = [s]"
      using b by (auto simp: bind_err_def split: sum.splits)
    have "\<exists>a. \<lparr>s_date = d', s_aqi = a, s_aqi_description = get_aqi_description a,
        s_pollutants = map (\<lambda>(p, vs). (p, mean2 vs)) (add_samples [] ?kvs)\<rparr> = s"
      using s(1) by (auto simp: day_summary_day_bucket bind_err_def split: sum.splits)
    then have sp: "s_pollutants s = map (\<lambda>(p, vs). (p, mean2 vs)) (add_samples [] ?kvs)"
      by (metis summary.select_convs(4))
    have "filter (\<lambda>kv. fst kv = ''pm2_5'') ?kvs \<noteq> []" using b by auto
    then obtain kv where "kv \<in> set ?kvs" "fst kv = ''pm2_5''"
      unfolding filter_empty_conv by blast
    then have "''pm2_5'' \<in> fst ` set ?kvs" by (metis imageI)
    then have "map_of (add_samples [] ?kvs) ''pm2_5'' = Some [Finite 10, Finite 20]"
      using b by (simp add: map_of_add_samples)
    then have "map_of (s_pollutants s) ''pm2_5'' = Some (mean2 [Finite 10, Finite 20])"
      unfolding sp by (simp add: map_of_map)
    then show ?thesis
      using s day_summary_date[OF s(1)] by (simp add: mean2_10_20)
  qed
  show ?thesis using 1 2 3 by blast
qed

theorem mean_examples_witness:
  "map r_aqi four_readings = [2, 3, 3, 4] \<and>
   (\<exists>s. aggregate four_readings = Inr [s] \<and> s_date s = (2024, 1, 2) \<and> s_aqi s = 3 \<and>
        s_aqi_description s = ''Moderate'') \<and>
   map snd (filter (\<lambda>kv. fst kv = ''pm2_5'') (concat (map r_pollutants one_day))) =
     [Finite 10, Finite 20] \<and>
   (\<exists>s. aggregate one_day = Inr [s] \<and> map_of (s_pollutants s) ''pm2_5'' = Some (Finite 15))"
proof -
  have 1: "(\<forall>r\<in>set four_readings. r_date r = (2024, 1, 2)) \<and>
      map r_aqi four_readings = [2, 3, 3, 4] \<and> strptime_date (2024, 1, 2) = Inr (2024, 1, 2)"
    by (simp add: four_readings_def example_reading_def strptime_date_def days_in_month_def)
  have 2: "(\<forall>r\<in>set one_day. r_date r = (2024, 1, 2)) \<and>
      map snd (filter (\<lambda>kv. fst kv = ''pm2_5'') (concat (map r_pollutants one_day))) =
        [Finite 10, Finite 20]"
    by (simp add: one_day_def example_reading_def)
  show ?thesis
    using mean_examples[of four_readings "(2024, 1, 2)" _ one_day "(2024, 1, 2)"] 1 2 one_day_run
    by simp
qed

subsection \<open>Chronological order\<close>

text \<open>
  C3. The returned summaries are strictly ascending by date, in the lexicographic order of
  (year, month, day), whatever the arrival order: any two runs on the same set of readings
  return the same sequence of dates. The sample readings arrive newest first.
\<close>

theorem aggregate_sorted:
  assumes "aggregate rs = Inr out"
  shows "sorted_wrt (<) (map s_date out) \<and>
         (\<forall>rs' out'. set rs' = set rs \<and> aggregate rs' = Inr out' \<longrightarrow>
            map s_date out' = map s_date out)"
proof -
  have shape: "sorted (map s_date out') \<and> distinct (map s_date out') \<and>
      set (map s_date out') = r_date ` set rs'" if h: "aggregate rs' = Inr out'" for rs' out'
  proof -
    obtain final where "map_err day_summary (group_by_date rs') = Inr final"
      and "out' = sort_key s_date final"
      using h by (rule aggregate_Inr)
    then have "sorted (map s_date out')" by simp
    then show ?thesis using aggregate_distinct_dates[OF h] by simp
  qed
  have 1: "sorted_wrt (<) (map s_date out)"
    using shape[OF assms] by (simp add: strict_sorted_iff)
  have 2: "map s_date out' = map s_date out" if "set rs' = set rs" "aggregate rs' = Inr out'" for rs' out'
    using shape[OF assms] shape[OF that(2)] that(1)
    by (intro sorted_distinct_set_unique) simp_all
  show ?thesis using 1 2 by blast
qed

theorem aggregate_sorted_witness:
  "aggregate example_readings = Inr example_summaries \<and>
   map r_date example_readings = [(2024, 1, 3), (2024, 1, 2), (2024, 1, 2), (2024, 1, 1)] \<and>
   map s_date example_summaries = [(2024, 1, 1), (2024, 1, 2), (2024, 1, 3)] \<and>
   sorted_wrt (<) (map s_date example_summaries)"
  using aggregate_sorted[OF example_run] example_run
  by (simp add: example_readings_def example_reading_def example_summaries_def)

subsection \<open>\<open>get_aqi_description\<close> is total\<close>

text \<open>
  C4. The classification returns a label for every integer, without an exception: the five
  codes 1 to 5 have the labels Good, Fair, Moderate, Poor and Very Poor, and every other
  integer, 0 and 6 among them, has the label Unknown.
\<close>

theorem get_aqi_description_total:
  "get_aqi_description 1 = ''Good'' \<and> get_aqi_description 2 = ''Fair'' \<and>
   get_aqi_description 3 = ''Moderate'' \<and> get_aqi_description 4 = ''Poor'' \<and>
   get_aqi_description 5 = ''Very Poor'' \<and>
   (\<forall>n. n < 1 \<or> 5 < n \<longrightarrow> get_aqi_description n = ''Unknown'')"
  by (auto simp: get_aqi_description_def)

theorem get_aqi_description_total_witness:
  "get_aqi_description 0 = ''Unknown'' \<and> get_aqi_description 6 = ''Unknown''"
  using get_aqi_description_total by simp

subsection \<open>Empty input\<close>

text \<open>
  C5. With no readings the aggregation returns the empty list, not an exception; so does
  the whole of \<open>get_aqi_data\<close> when the provider's \<open>list\<close> is empty.
\<close>

theorem aggregate_empty:
  "aggregate [] = Inr [] \<and>
   get_aqi_data fromtimestamp (Inr \<lparr>data_list = Some []\<rparr>) = Inr []"
  by (simp add: get_aqi_data_def aggregate_def summarize_days_def sort_by_date_def
      group_by_date_def bind_err_def field_def)

subsection \<open>A missing key\<close>

text \<open>
  C6, as the code has it. If any item of the provider's list lacks a required key,
  \<open>get_aqi_data\<close> raises and returns no list at all, whatever the other items hold: no
  default value stands in for the missing one. The exception names a missing key only when
  no timestamp fails first: line 50 converts the timestamp of an item before it reads the
  other keys of that item, so the exception is the \<open>KeyError\<close> of a missing key of an item
  (the spec's \<open>MalformedRecord\<close>) or an exception that \<open>datetime.fromtimestamp\<close> raised.
  When the items before the malformed one are well formed and its timestamp converts, the
  exception is the \<open>KeyError\<close> of the first missing key of that item: for an item that
  lacks only \<open>so2\<close> it is \<open>KeyError('so2')\<close>, as for the sample item without \<open>so2\<close>.
  The claim said the error always identifies the missing key: the counterexample is an
  item without \<open>main\<close> whose timestamp is the first second of the year 10000, for which
  the run ends with the \<open>ValueError\<close> of \<open>datetime.fromtimestamp\<close>.
\<close>

theorem missing_field_rejected:
  "(data_list data = Some items \<and> (\<exists>item\<in>set items. first_missing item \<noteq> None) \<longrightarrow>
      (\<exists>e. get_aqi_data fromtimestamp (Inr data) = Inl e \<and>
           ((\<exists>item\<in>set items. \<exists>k. first_missing item = Some k \<and> e = KeyError k) \<or>
            (\<exists>item\<in>set items. \<exists>t. item_dt item = Some t \<and> fromtimestamp t = Inl e)))) \<and>
   (data_list data = Some (pre @ item # post) \<and>
    (\<forall>p\<in>set pre. \<exists>r. process_item fromtimestamp p = Inr r) \<and>
    (\<forall>t. item_dt item = Some t \<longrightarrow> (\<exists>dt. fromtimestamp t = Inr dt)) \<and>
    first_missing item = Some k \<longrightarrow>
      get_aqi_data fromtimestamp (Inr data) = Inl (KeyError k))"
proof (intro conjI impI)
  assume a: "data_list data = Some items \<and> (\<exists>item\<in>set items. first_missing item \<noteq> None)"
  show "\<exists>e. get_aqi_data fromtimestamp (Inr data) = Inl e \<and>
      ((\<exists>item\<in>set items. \<exists>k. first_missing item = Some k \<and> e = KeyError k) \<or>
       (\<exists>item\<in>set items. \<exists>t. item_dt item = Some t \<and> fromtimestamp t = Inl e))"
  proof (cases "map_err (process_item fromtimestamp) items")
    case (Inl e)
    then obtain item where i: "item \<in> set items" "process_item fromtimestamp item = Inl e"
      using map_err_Inl by blast
    have "get_aqi_data fromtimestamp (Inr data) = Inl e"
      using a Inl by (simp add: get_aqi_data_def bind_err_def field_def)
    then show ?thesis using process_item_error[OF i(2)] i(1) by blast
  next
    case (Inr processed)
    obtain item where i: "item \<in> set items" "first_missing item \<noteq> None" using a by blast
    have l: "list_all2 (\<lambda>x y. process_item fromtimestamp x = Inr y) items processed"
      using Inr by (rule map_err_Inr)
    obtain n where n: "n < length items" "item = items ! n"
      using i(1) by (auto simp: in_set_conv_nth)
    have "process_item fromtimestamp item = Inr (processed ! n)"
      using list_all2_nthD[OF l n(1)] n(2) by simp
    then have "first_missing item = None" by (rule process_item_complete)
    then show ?thesis using i(2) by simp
  qed
next
  assume b: "data_list data = Some (pre @ item # post) \<and>
    (\<forall>p\<in>set pre. \<exists>r. process_item fromtimestamp p = Inr r) \<and>
    (\<forall>t. item_dt item = Some t \<longrightarrow> (\<exists>dt. fromtimestamp t = Inr dt)) \<and>
    first_missing item = Some k"
  then have "process_item fromtimestamp item = Inl (KeyError k)"
    by (intro process_item_missing) simp_all
  moreover have "\<And>p. p \<in> set pre \<Longrightarrow> \<exists>r. process_item fromtimestamp p = Inr r"
    using b by blast
  ultimately have "map_err (process_item fromtimestamp) (pre @ item # post) = Inl (KeyError k)"
    by (intro map_err_first_failure)
  then show "get_aqi_data fromtimestamp (Inr data) = Inl (KeyError k)"
    using b by (simp add: get_aqi_data_def bind_err_def field_def)
qed

theorem missing_field_rejected_witness:
  "map_of (the (item_components example_item_no_so2)) ''so2'' = None \<and>
   get_aqi_data utc_fromtimestamp
     (Inr \<lparr>data_list = Some [example_item, example_item_no_so2]\<rparr>) = Inl (KeyError ''so2'')"
proof -
  let ?data = "\<lparr>data_list = Some [example_item, example_item_no_so2]\<rparr>"
  have 1: "data_list ?data = Some ([example_item] @ example_item_no_so2 # [])" by simp
  have 2: "\<forall>p\<in>set [example_item]. \<exists>r. process_item utc_fromtimestamp p = Inr r"
    by (simp add: example_item_processed)
  have 3: "\<forall>t. item_dt example_item_no_so2 = Some t \<longrightarrow> (\<exists>dt. utc_fromtimestamp t = Inr dt)"
    by (simp add: example_item_no_so2_def example_timestamp)
  have "get_aqi_data utc_fromtimestamp (Inr ?data) = Inl (KeyError ''so2'')"
    using missing_field_rejected[of ?data _ utc_fromtimestamp "[example_item]" example_item_no_so2 "[]" "''so2''"]
      1 2 3 example_item_no_so2_missing by blast
  moreover have "map_of (the (item_components example_item_no_so2)) ''so2'' = None"
    by (simp add: example_item_no_so2_def example_components_def)
  ultimately show ?thesis by simp
qed

theorem missing_field_counterexample:
  "item_main example_item_no_main = None \<and>
   first_missing example_item_no_main = Some ''main'' \<and>
   get_aqi_data utc_fromtimestamp (Inr \<lparr>data_list = Some [example_item_no_main]\<rparr>) =
     Inl ValueError \<and>
   ValueError \<noteq> KeyError ''main''"
  using example_item_no_main_run by (simp add: example_item_no_main_def)

subsection \<open>No empty sample sequence\<close>



subsection \<open>A single reading\<close>

text \<open>
  C8, as the code has it. For one reading (an AQI code of magnitude below \<open>2 ^ 53\<close>, the
  pollutants a dict of floats) whose date has a four-digit year, the output is one day
  with the date of the reading, its AQI code unchanged and the label of that code, and,
  for each channel, the value of the reading rounded to two decimal places by
  \<open>round(v, 2)\<close>; when the sort key of the date does not parse, the run ends with the
  \<open>ValueError\<close> of line 98. A run of \<open>get_aqi_data\<close> on a list of one item is this
  aggregation of the reading built from the item. The claim said the pollutant values are
  unchanged, for every single reading. The counterexample has three runs on one item with
  all eight channels: the sample item, whose \<open>no\<close> value 0.125 comes out as the float 0.12;
  the same item with the AQI code \<open>2 ^ 53 + 1\<close>, which comes out as \<open>2 ^ 53\<close>; and the
  same item on 0999-12-31, for which no day comes out.
\<close>

theorem single_reading_rounded:
  assumes "\<bar>r_aqi r\<bar> < 2 ^ 53"
    and "distinct (map fst (r_pollutants r))"
    and "\<forall>kv\<in>set (r_pollutants r). is_binary64 (snd kv)"
  shows "aggregate [r] =
           (if strptime_date (r_date r) = Inr (r_date r)
            then Inr [\<lparr>s_date = r_date r, s_aqi = r_aqi r,
                       s_aqi_description = get_aqi_description (r_aqi r),
                       s_pollutants = map (\<lambda>(p, v). (p, py_round2 v)) (r_pollutants r)\<rparr>]
            else Inl ValueError) \<and>
         (\<forall>fromtimestamp item. process_item fromtimestamp item = Inr r \<longrightarrow>
            get_aqi_data fromtimestamp (Inr \<lparr>data_list = Some [item]\<rparr>) = aggregate [r])"
proof -
  have a: "py_int_truediv (sum_list (map r_aqi [r])) (int (length [r])) =
      Inr (Finite (of_int (r_aqi r)))"
    using binary64_of_int[OF assms(1)] by (simp add: py_int_truediv_def)
  have "map (\<lambda>(p, vs). (p, mean2 vs)) (add_samples [] (r_pollutants r)) =
      map (\<lambda>(p, v). (p, mean2 [v])) (r_pollutants r)"
    by (simp add: add_samples_distinct[OF assms(2)] case_prod_unfold comp_def)
  also have "\<dots> = map (\<lambda>(p, v). (p, py_round2 v)) (r_pollutants r)"
    using assms(3) by (auto simp: mean2_single)
  finally have p: "map (\<lambda>(p, vs). (p, mean2 vs)) (add_samples [] (concat (map r_pollutants [r]))) =
      map (\<lambda>(p, v). (p, py_round2 v)) (r_pollutants r)"
    by simp
  have d: "day_summary (r_date r, day_bucket [r]) =
      Inr \<lparr>s_date = r_date r, s_aqi = r_aqi r,
           s_aqi_description = get_aqi_description (r_aqi r),
           s_pollutants = map (\<lambda>(p, v). (p, py_round2 v)) (r_pollutants r)\<rparr>"
    unfolding day_summary_day_bucket a p by (simp add: bind_err_def)
  have g: "aggregate [r] =
      bind_err (day_summary (r_date r, day_bucket [r]))
        (\<lambda>s. bind_err (strptime_date (r_date r)) (\<lambda>k. Inr [s]))"
    by (rule aggregate_single_day) simp_all
  have 1: "aggregate [r] =
      (if strptime_date (r_date r) = Inr (r_date r)
       then Inr [\<lparr>s_date = r_date r, s_aqi = r_aqi r,
                  s_aqi_description = get_aqi_description (r_aqi r),
                  s_pollutants = map (\<lambda>(p, v). (p, py_round2 v)) (r_pollutants r)\<rparr>]
       else Inl ValueError)"
  proof (cases "strptime_date (r_date r)")
    case (Inl e)
    then have "e = ValueError" by (rule strptime_date_Inl)
    then show ?thesis using Inl by (simp add: g d bind_err_def)
  next
    case (Inr k)
    then have "k = r_date r" by (rule strptime_date_Inr)
    then show ?thesis using Inr by (simp add: g d bind_err_def)
  qed
  have 2: "get_aqi_data fromtimestamp (Inr \<lparr>data_list = Some [item]\<rparr>) = aggregate [r]"
    if "process_item fromtimestamp item = Inr r" for fromtimestamp item
    using that by (simp add: get_aqi_data_def bind_err_def field_def)
  show ?thesis using 1 2 by blast
qed

theorem single_reading_rounded_witness:
  "get_aqi_data utc_fromtimestamp (Inr \<lparr>data_list = Some [example_item]\<rparr>) =
     Inr [\<lparr>s_date = (2024, 1, 2), s_aqi = 2, s_aqi_description = ''Fair'',
           s_pollutants = map (\<lambda>(p, v). (p, py_round2 v)) example_components\<rparr>]"
proof -
  let ?r = "\<lparr>r_date = (2024, 1, 2), r_datetime = \<lparr>dt_date = (2024, 1, 2), dt_seconds = 0\<rparr>,
             r_aqi = 2, r_pollutants = example_components\<rparr>"
  have 1: "\<bar>r_aqi ?r\<bar> < 2 ^ 53" by simp
  have 2: "distinct (map fst (r_pollutants ?r))" by (simp add: example_components_def)
  have "list_all (\<lambda>kv. is_binary64 (snd kv)) example_components" by code_simp
  then have 3: "\<forall>kv\<in>set (r_pollutants ?r). is_binary64 (snd kv)"
    by (simp add: list_all_iff)
  have 4: "strptime_date (2024, 1, 2) = Inr (2024, 1, 2)"
    by (simp add: strptime_date_def days_in_month_def)
  show ?thesis
    using single_reading_rounded[OF 1 2 3] example_item_processed 4
    by (simp add: get_aqi_description_def)
qed

theorem single_reading_counterexample:
  "item_components example_item = Some example_components \<and>
   map_of example_components ''no'' = Some (Finite (1 / 8)) \<and>
   get_aqi_data utc_fromtimestamp (Inr \<lparr>data_list = Some [example_item]\<rparr>) =
     Inr [\<lparr>s_date = (2024, 1, 2), s_aqi = 2, s_aqi_description = ''Fair'',
           s_pollutants =
             [(''co'', Finite (807 / 4)),
              (''no'', Finite (1080863910568919 / 9007199254740992)),
              (''no2'', Finite (3 / 4)),
              (''o3'', Finite (603587903183913 / 8796093022208)),
              (''so2'', Finite (5584463537939415 / 9007199254740992)),
              (''pm2_5'', Finite (1 / 2)),
              (''pm10'', Finite (1261007895663739 / 2251799813685248)),
              (''nh3'', Finite (1080863910568919 / 9007199254740992))]\<rparr>] \<and>
   Finite (1080863910568919 / 9007199254740992) \<noteq> Finite (1 / 8) \<and>
   item_main example_item_big_aqi = Some [(''aqi'', 9007199254740993)] \<and>
   map_sum id (map s_aqi)
     (get_aqi_data utc_fromtimestamp (Inr \<lparr>data_list = Some [example_item_big_aqi]\<rparr>)) =
     Inr [9007199254740992] \<and>
   map_sum id r_date (process_item utc_fromtimestamp example_item_year_999) =
     Inr (999, 12, 31) \<and>
   get_aqi_data utc_fromtimestamp (Inr \<lparr>data_list = Some [example_item_year_999]\<rparr>) =
     Inl ValueError"
  using example_item_run example_item_big_aqi_run example_item_year_999_run
  by (simp add: example_item_def example_components_def example_item_big_aqi_def)

subsection \<open>Determinism\<close>

text \<open>
  C9. A run reads nothing but its arguments: the bucket dictionary is created empty in
  every run, nothing is kept between runs, and no step draws on a clock or a random
  source. The theorem says what the result of a run does and does not depend on.
  Of a reading, the aggregation reads the date, the AQI code and the pollutants only:
  two sequences of readings that agree on these give the same result, summaries or
  exception (the \<open>datetime\<close> string is carried along and never read). The result does not
  depend on the order in which the third loop visits the buckets: visiting the buckets of
  \<open>daily_data\<close> in any order gives the result of the run, summaries or exception, since the
  dates of the buckets are distinct and line 98 sorts on them. And of the environment, a
  whole run reads only what \<open>datetime.fromtimestamp\<close> returns on the timestamps of the
  items (the local time zone): two environments that convert these timestamps alike give
  the same result.
\<close>

theorem aggregate_deterministic:
  "(map (\<lambda>r. (r_date r, r_aqi r, r_pollutants r)) rs =
    map (\<lambda>r. (r_date r, r_aqi r, r_pollutants r)) rs' \<longrightarrow>
      aggregate rs = aggregate rs') \<and>
   (mset buckets = mset (group_by_date rs) \<longrightarrow> summarize_days buckets = aggregate rs) \<and>
   (data_list data = Some items \<and>
    (\<forall>item\<in>set items. \<forall>t. item_dt item = Some t \<longrightarrow> fromtimestamp t = fromtimestamp' t) \<longrightarrow>
      get_aqi_data fromtimestamp (Inr data) = get_aqi_data fromtimestamp' (Inr data))"
proof (intro conjI impI)
  assume "map (\<lambda>r. (r_date r, r_aqi r, r_pollutants r)) rs =
      map (\<lambda>r. (r_date r, r_aqi r, r_pollutants r)) rs'"
  then have "group_by_date rs = group_by_date rs'" by (rule group_by_date_cong)
  then show "aggregate rs = aggregate rs'" by (simp add: aggregate_def)
next
  assume "mset buckets = mset (group_by_date rs)"
  then show "summarize_days buckets = aggregate rs" by (rule summarize_days_perm)
next
  assume a: "data_list data = Some items \<and>
    (\<forall>item\<in>set items. \<forall>t. item_dt item = Some t \<longrightarrow> fromtimestamp t = fromtimestamp' t)"
  have "map_err (process_item fromtimestamp) items = map_err (process_item fromtimestamp') items"
    using a by (intro map_err_agree ballI process_item_agree) blast
  then show "get_aqi_data fromtimestamp (Inr data) = get_aqi_data fromtimestamp' (Inr data)"
    using a by (simp add: get_aqi_data_def bind_err_def field_def)
qed

theorem aggregate_deterministic_witness:
  "map fst (rev (group_by_date example_readings)) = [(2024, 1, 1), (2024, 1, 2), (2024, 1, 3)] \<and>
   map fst (group_by_date example_readings) = [(2024, 1, 3), (2024, 1, 2), (2024, 1, 1)] \<and>
   summarize_days (rev (group_by_date example_readings)) = Inr example_summaries"
proof -
  have "mset (rev (group_by_date example_readings)) = mset (group_by_date example_readings)"
    by simp
  then have "summarize_days (rev (group_by_date example_readings)) = Inr example_summaries"
    using aggregate_deterministic[where rs = example_readings
        and buckets = "rev (group_by_date example_readings)"] example_run
    by simp
  moreover have "map fst (group_by_date example_readings) =
      [(2024, 1, 3), (2024, 1, 2), (2024, 1, 1)]"
    by (simp add: group_by_date_keys first_seen_def example_readings_def example_reading_def)
  ultimately show ?thesis by (simp add: rev_map[symmetric])
qed

subsection \<open>In-range codes give in-range days\<close>

text \<open>
  C10. If every reading has an AQI code from 1 to 5, then every day of every list the
  aggregation returns has an AQI from 1 to 5 and a label other than Unknown: the mean of
  the codes lies between 1 and 5, correct rounding to a float keeps it there since 1 and
  5 are floats, and so does rounding to an integer. The aggregation does return a list
  for such readings whenever the sort key of every date parses, that is, for dates with
  a four-digit year; its only failure then is the \<open>ValueError\<close> of line 98.
\<close>

theorem aqi_stays_in_range:
  assumes "\<forall>r\<in>set rs. 1 \<le> r_aqi r \<and> r_aqi r \<le> 5"
  shows "(\<forall>out. aggregate rs = Inr out \<longrightarrow>
            (\<forall>s\<in>set out. 1 \<le> s_aqi s \<and> s_aqi s \<le> 5 \<and>
                         s_aqi_description s \<noteq> ''Unknown'')) \<and>
         ((\<forall>r\<in>set rs. strptime_date (r_date r) = Inr (r_date r)) \<longrightarrow>
            (\<exists>out. aggregate rs = Inr out)) \<and>
         (\<forall>e. aggregate rs = Inl e \<longrightarrow> e = ValueError)"
proof -
  let ?P = "\<lambda>s. 1 \<le> s_aqi s \<and> s_aqi s \<le> 5 \<and> s_aqi_description s \<noteq> ''Unknown''"
  have "\<exists>s. day_summary g = Inr s \<and> ?P s" if g: "g \<in> set (group_by_date rs)" for g
  proof -
    obtain d where d: "d \<in> r_date ` set rs"
      and ge: "g = (d, day_bucket (filter (\<lambda>r. r_date r = d) rs))"
      using g by (auto simp: group_by_date_eq)
    let ?day = "filter (\<lambda>r. r_date r = d) rs"
    have ne: "map r_aqi ?day \<noteq> []" using d by (auto simp: filter_empty_conv)
    have "\<And>x. x \<in> set (map r_aqi ?day) \<Longrightarrow> 1 \<le> x \<and> x \<le> 5" using assms by auto
    with ne obtain y where
      y: "py_int_truediv (sum_list (map r_aqi ?day)) (int (length (map r_aqi ?day))) =
          Inr (Finite y)" "1 \<le> y" "y \<le> 5"
      using mean_in_range by blast
    have "of_int 1 \<le> y" "y \<le> of_int 5" using y(2,3) by simp_all
    then have r: "1 \<le> round_half_even y" "round_half_even y \<le> 5"
      by (simp_all add: round_half_even_ge round_half_even_le)
    show ?thesis
      using y(1) r label_known[OF r]
      by (simp add: ge day_summary_day_bucket bind_err_def)
  qed
  then obtain final where f: "map_err day_summary (group_by_date rs) = Inr final"
    "\<forall>s\<in>set final. ?P s"
    using map_err_all[of "group_by_date rs" day_summary ?P] by blast
  have 1: "\<forall>s\<in>set out. ?P s" if agg: "aggregate rs = Inr out" for out
  proof -
    obtain final' where "map_err day_summary (group_by_date rs) = Inr final'"
      and "out = sort_key s_date final'"
      using agg by (rule aggregate_Inr)
    then show ?thesis using f by simp
  qed
  have 2: "\<exists>out. aggregate rs = Inr out"
    if "\<forall>r\<in>set rs. strptime_date (r_date r) = Inr (r_date r)"
    using aggregate_returns[OF f(1) that] by blast
  have 3: "e = ValueError" if err: "aggregate rs = Inl e" for e
  proof -
    have "sort_by_date final = Inl e"
      using err f(1) by (simp add: aggregate_def summarize_days_def bind_err_def)
    then show ?thesis by (rule sort_by_date_Inl(1))
  qed
  show ?thesis using 1 2 3 by blast
qed

theorem aqi_stays_in_range_witness:
  "map r_aqi example_readings = [4, 3, 2, 1] \<and>
   aggregate example_readings = Inr example_summaries \<and>
   map s_aqi example_summaries = [1, 2, 4] \<and>
   list_all (\<lambda>s. s_aqi_description s \<noteq> ''Unknown'') example_summaries"
proof -
  have h: "\<forall>r\<in>set example_readings. 1 \<le> r_aqi r \<and> r_aqi r \<le> 5"
    by (simp add: example_readings_def example_reading_def)
  have "list_all (\<lambda>s. s_aqi_description s \<noteq> ''Unknown'') example_summaries"
    using aqi_stays_in_range[OF h] example_run by (simp add: list_all_iff)
  moreover have "map r_aqi example_readings = [4, 3, 2, 1]"
    by (simp add: example_readings_def example_reading_def)
  moreover have "map s_aqi example_summaries = [1, 2, 4]"
    by (simp add: example_summaries_def)
  ultimately show ?thesis using example_run by simp
qed

end
